theory Spec2Isabelle
  imports Main "HOL-Library.Sublist"
begin

section \<open>JavaScript string primitives used by the backend\<close>

text \<open>
  A JavaScript string is modelled as a \<^typ>\<open>string\<close>: each \<^typ>\<open>char\<close> stands for one
  code unit below 256.  Of the characters that \<^verbatim>\<open>\s\<close> and \<^verbatim>\<open>String.prototype.trim\<close>
  treat as white space, the ones in that range are TAB, LF, VT, FF, CR, SPACE and NBSP.
\<close>

definition isWhiteSpace :: "char \<Rightarrow> bool" where
  "isWhiteSpace c = (c = CHR 0x09 \<or> c = CHR 0x0A \<or> c = CHR 0x0B \<or> c = CHR 0x0C
                     \<or> c = CHR 0x0D \<or> c = CHR 0x20 \<or> c = CHR 0xA0)"

definition isDigit :: "char \<Rightarrow> bool" where
  "isDigit c = (c = CHR ''0'' \<or> c = CHR ''1'' \<or> c = CHR ''2'' \<or> c = CHR ''3'' \<or> c = CHR ''4''
                \<or> c = CHR ''5'' \<or> c = CHR ''6'' \<or> c = CHR ''7'' \<or> c = CHR ''8'' \<or> c = CHR ''9'')"

text \<open>\<^verbatim>\<open>s.trim()\<close>\<close>

definition trim :: "string \<Rightarrow> string" where
  "trim s = rev (dropWhile isWhiteSpace (rev (dropWhile isWhiteSpace s)))"

text \<open>\<^verbatim>\<open>s.replace(/\*/g, '')\<close>\<close>

definition stripAsterisks :: "string \<Rightarrow> string" where
  "stripAsterisks s = filter (\<lambda>c. c \<noteq> CHR ''*'') s"

text \<open>\<^verbatim>\<open>s.substring(a, b)\<close> for \<open>a \<le> b \<le> s.length\<close>, the only way the backend calls it.\<close>

definition substring :: "string \<Rightarrow> nat \<Rightarrow> nat \<Rightarrow> string" where
  "substring s a b = take (b - a) (drop a s)"

text \<open>\<^verbatim>\<open>s.startsWith(p)\<close> and \<^verbatim>\<open>s.includes(p)\<close>\<close>

fun startsWith :: "string \<Rightarrow> string \<Rightarrow> bool" where
  "startsWith s [] = True"
| "startsWith [] (p # ps) = False"
| "startsWith (c # cs) (p # ps) = (c = p \<and> startsWith cs ps)"

fun includesStr :: "string \<Rightarrow> string \<Rightarrow> bool" where
  "includesStr [] p = (p = [])"
| "includesStr (c # cs) p = (startsWith (c # cs) p \<or> includesStr cs p)"

text \<open>Decimal rendering of a number, as template literals and \<^verbatim>\<open>toString()\<close> produce it.\<close>

definition digitChar :: "nat \<Rightarrow> char" where
  "digitChar d = char_of (48 + d)"

function string_of_nat :: "nat \<Rightarrow> string" where
  "string_of_nat n = (if n < 10 then [digitChar n] else string_of_nat (n div 10) @ [digitChar (n mod 10)])"
  by pat_completeness auto
termination
  by (relation "measure id") auto

declare string_of_nat.simps [simp del]

definition string_of_int :: "int \<Rightarrow> string" where
  "string_of_int i = (if i < 0 then ''-'' @ string_of_nat (nat (- i)) else string_of_nat (nat i))"

text \<open>Truthiness of an optional string: \<^verbatim>\<open>undefined\<close>, \<^verbatim>\<open>null\<close> and \<^verbatim>\<open>''\<close> are falsy.\<close>

fun truthy :: "string option \<Rightarrow> bool" where
  "truthy None = False"
| "truthy (Some s) = (s \<noteq> [])"

text \<open>\<^verbatim>\<open>a || d\<close> for an optional string \<open>a\<close> and a string default \<open>d\<close>.\<close>

fun orElse :: "string option \<Rightarrow> string \<Rightarrow> string" where
  "orElse None d = d"
| "orElse (Some s) d = (if s = [] then d else s)"

section \<open>Data model\<close>

text \<open>One element of \<^verbatim>\<open>report.photos\<close>, as the creation handler pushes it.\<close>

record photo =
  path :: string
  description :: string
  ptype :: string
  transcription :: string

text \<open>A report object of the in-memory \<^verbatim>\<open>reports\<close> array.\<close>

record report =
  report_id :: string
  jobName :: string
  clientName :: string
  address :: string
  date :: string
  photos :: "photo list"
  status :: string
  createdAt :: nat
  aiReport :: "string option"

text \<open>A file part of a multipart upload, as it arrives.\<close>

record filePart =
  fp_fieldname :: string
  fp_originalname :: string
  fp_mimetype :: string
  fp_size :: nat

text \<open>A stored file as multer hands it to a handler.\<close>

record uploadFile =
  originalname :: string
  file_path :: string

text \<open>
  One element of the parsed \<^verbatim>\<open>photoDescriptions\<close> array.  A \<^verbatim>\<open>null\<close> element, or one
  that lacks a property, reads as \<^verbatim>\<open>undefined\<close> there: \<open>None\<close>.
\<close>

record descEntry =
  d_description :: "string option"
  d_type :: "string option"
  d_voiceFile :: "string option"
  d_filename :: "string option"

text \<open>
  The \<^verbatim>\<open>photoDescriptions\<close> body field, by what \<^verbatim>\<open>JSON.parse\<close> makes of it: absent from
  the body, the empty string, a non-empty string that is not valid JSON, valid JSON that
  is not an array, or an array.
\<close>

datatype descsField = Missing | Empty | Invalid | NonArray | Array "descEntry list"

text \<open>
  A request to POST /api/reports.  \<open>req_multipart\<close> tells whether its content type is
  multipart; only then does multer read it, and otherwise the body fields are those that
  \<^verbatim>\<open>express.json()\<close> found and \<open>req_files\<close> plays no part.  \<open>req_files\<close> are the file parts
  in the order of arrival, and \<open>req_descriptionsAfter\<close> is the number of file parts that
  arrive before the \<^verbatim>\<open>photoDescriptions\<close> field: multer fills \<^verbatim>\<open>req.body\<close> part by part, so the
  file parts from that position on are stored with the field in \<^verbatim>\<open>req.body\<close>.  Each body
  field comes at most once and each file part has a file name.
\<close>

record createRequest =
  req_multipart :: bool
  req_jobName :: "string option"
  req_clientName :: "string option"
  req_address :: "string option"
  req_date :: "string option"
  req_photoDescriptions :: descsField
  req_descriptionsAfter :: nat
  req_files :: "filePart list"

section \<open>The assembled document\<close>

text \<open>
  The PDF is modelled as the sequence of drawing calls made on the pdfkit document.
  Each constructor is one call site of \<^verbatim>\<open>generateFormattedPDF\<close>; fonts, sizes and colours
  are constants of the call site and are left out.  Grid coordinates are the \<open>x\<close> the
  code computes and the \<open>y\<close> offset from the top of the grid.
\<close>

datatype docop =
    AddPage
  | PageNumber string
  | Title string
  | Issue string
  | SectionHeader string
  | Image string nat nat
  | Rect nat nat
  | CellNote string nat nat
  | CellLabel string nat nat
  | SetY nat
  | PhotoHeading string
  | FieldLine string string
  | DescriptionLine string
  | MoveDown
  | ContinuationHeader string
  | BulletLine string
  | TextLine string
  | EndDoc

section \<open>Collaborators\<close>

text \<open>
  Everything the backend reads from outside: the clock, the transcription and
  generation services, the file system, pdfkit's layout cursor, the output stream and the
  mail transport.  A transcription or generation call that throws returns \<open>None\<close>.
  \<open>pageOverflow\<close> is the test \<^verbatim>\<open>doc.y > doc.page.height - 150\<close>: pdfkit derives
  \<^verbatim>\<open>doc.y\<close> from the calls made so far.  \<open>sinkError\<close> is the message of the error the write
  stream to a path reports, and \<open>sendMail\<close> the message of the error the transport throws;
  \<open>None\<close> when there is no error.  \<open>uniqueSuffix n\<close> is what the clock and the random
  number generator give the file name of the \<open>n\<close>-th file part of an upload, \<open>extname\<close> is
  \<^verbatim>\<open>path.extname\<close>, and \<open>undefinedRead\<close> is the message of the engine's TypeError for
  reading \<^verbatim>\<open>photos\<close> of \<^verbatim>\<open>undefined\<close>.
\<close>

record env =
  dateNow :: nat
  isoDay :: string
  speechToText :: "string \<Rightarrow> string option option"
  generateContent :: "string \<Rightarrow> string option"
  existsSync :: "string \<Rightarrow> bool"
  imageLoads :: "string \<Rightarrow> bool"
  pageOverflow :: "docop list \<Rightarrow> bool"
  sinkError :: "string \<Rightarrow> string option"
  sendMail :: "string option \<Rightarrow> string \<Rightarrow> string option"
  uniqueSuffix :: "nat \<Rightarrow> string"
  extname :: "string \<Rightarrow> string"
  undefinedRead :: string

section \<open>HTTP responses\<close>

datatype body =
    JError string
  | JErrorDetails string string
  | JReport report
  | JReports "report list"
  | JAiReport "string option"
  | JMessage string
  | Download string "docop list"

text \<open>
  What a request ends in: an answer with a status code and a body, or no answer at all
  because an exception that nothing catches ended the process.
\<close>

datatype response = Response nat body | ProcessExit

section \<open>The upload middleware of POST /api/reports\<close>

text \<open>
  The route runs \<^verbatim>\<open>upload.fields([{ name: 'photos', maxCount: 20 }, { name: 'voices',
  maxCount: 20 }])\<close> before its handler.  The options are those of the source: the storage
  with its \<^verbatim>\<open>filename\<close> callback, the file filter and the size limit.  Of multer itself the
  model takes its documented handling of a multipart request: the parts are read in order;
  a file part whose field is not listed, or whose field has no file left of its
  \<^verbatim>\<open>maxCount\<close>, ends the upload with the error \<^verbatim>\<open>Unexpected field\<close>; then the file filter
  runs; then the storage names and writes the file; a file beyond the size limit ends the
  upload with \<^verbatim>\<open>File too large\<close>.  An upload that ends with an error goes to the error
  handler of the application.  Multer does not catch an exception thrown by the
  \<^verbatim>\<open>filename\<close> callback, and nothing else in the application does.
\<close>

definition allowedTypes :: "string list" where
  "allowedTypes = [''image/jpeg'', ''image/png'', ''image/gif'', ''audio/mpeg'', ''audio/wav'', ''audio/m4a'']"

definition fileSizeLimit :: nat where
  "fileSizeLimit = 5000 * 1024 * 1024"

definition uploadsDir :: string where
  "uploadsDir = ''uploads''"

text \<open>\<^verbatim>\<open>ds.findIndex(desc => desc && desc.filename === name)\<close>; \<open>k\<close> is the index of the head
  of the list.\<close>

fun findIndexFilename :: "descEntry list \<Rightarrow> string \<Rightarrow> nat \<Rightarrow> int" where
  "findIndexFilename [] name k = - 1"
| "findIndexFilename (d # ds) name k =
     (if d_filename d = Some name then int k else findIndexFilename ds name (Suc k))"

text \<open>
  The middle of the file name the \<^verbatim>\<open>filename\<close> callback builds: empty when
  \<^verbatim>\<open>req.body.photoDescriptions\<close> is not there yet (\<open>seen\<close> is false) or is empty, and the
  index found otherwise.  \<open>None\<close> is the exception \<^verbatim>\<open>JSON.parse\<close> throws on a string that is
  not JSON, or the TypeError of calling \<^verbatim>\<open>findIndex\<close> on a parsed value that is not an array.
\<close>

fun filenameIndex :: "descsField \<Rightarrow> bool \<Rightarrow> string \<Rightarrow> string option" where
  "filenameIndex field False name = Some []"
| "filenameIndex Missing True name = Some []"
| "filenameIndex Empty True name = Some []"
| "filenameIndex Invalid True name = None"
| "filenameIndex NonArray True name = None"
| "filenameIndex (Array ds) True name = Some (''-'' @ string_of_int (findIndexFilename ds name 0))"

text \<open>How an upload ends: with an error for the error handler, with the process gone, or
  with the stored files of the two fields.\<close>

datatype uploaded = Refused string | Exited | Stored "uploadFile list" "uploadFile list"

text \<open>
  The file parts, one after the other: \<open>n\<close> is the position of the part, \<open>photosLeft\<close> and
  \<open>voicesLeft\<close> count down from the \<^verbatim>\<open>maxCount\<close> of the two fields, \<open>ps\<close> and \<open>vs\<close> are the
  files stored so far.
\<close>

fun storeParts :: "env \<Rightarrow> createRequest \<Rightarrow> nat \<Rightarrow> nat \<Rightarrow> nat \<Rightarrow> filePart list
                   \<Rightarrow> uploadFile list \<Rightarrow> uploadFile list \<Rightarrow> uploaded" where
  "storeParts e req n photosLeft voicesLeft [] ps vs = Stored ps vs"
| "storeParts e req n photosLeft voicesLeft (f # fs) ps vs =
     (let filesLeft = (if fp_fieldname f = ''photos'' then photosLeft
                       else if fp_fieldname f = ''voices'' then voicesLeft else 0)
      in if filesLeft = 0 then Refused ''Unexpected field''
         else if fp_mimetype f \<notin> set allowedTypes
         then Refused ''Invalid file type. Only images and audio files are allowed.''
         else (case filenameIndex (req_photoDescriptions req) (req_descriptionsAfter req \<le> n)
                      (fp_originalname f) of
                 None \<Rightarrow> Exited
               | Some idx \<Rightarrow>
                   if fp_size f > fileSizeLimit then Refused ''File too large''
                   else (let stored = \<lparr>originalname = fp_originalname f,
                                        file_path = uploadsDir @ ''/'' @ uniqueSuffix e n @ idx
                                                      @ extname e (fp_originalname f)\<rparr>
                         in if fp_fieldname f = ''photos''
                            then storeParts e req (Suc n) (photosLeft - 1) voicesLeft fs (ps @ [stored]) vs
                            else storeParts e req (Suc n) photosLeft (voicesLeft - 1) fs ps (vs @ [stored]))))"

section \<open>POST /api/reports\<close>

text \<open>\<^verbatim>\<open>JSON.parse(photoDescriptions)\<close> with the default \<^verbatim>\<open>'[]'\<close> and the catch that yields
  \<^verbatim>\<open>[]\<close>; \<open>None\<close> is a parsed value for which \<^verbatim>\<open>Array.isArray\<close> is false.\<close>

fun parsedDescriptions :: "descsField \<Rightarrow> descEntry list option" where
  "parsedDescriptions Missing = Some []"
| "parsedDescriptions Empty = Some []"
| "parsedDescriptions Invalid = Some []"
| "parsedDescriptions NonArray = None"
| "parsedDescriptions (Array ds) = Some ds"

definition emptyDesc :: descEntry where
  "emptyDesc = \<lparr>d_description = None, d_type = None, d_voiceFile = None, d_filename = None\<rparr>"

text \<open>\<^verbatim>\<open>voiceFiles.find(f => f.originalname === voiceFileName)\<close>\<close>

fun findVoiceFile :: "uploadFile list \<Rightarrow> string \<Rightarrow> uploadFile option" where
  "findVoiceFile [] n = None"
| "findVoiceFile (f # fs) n = (if originalname f = n then Some f else findVoiceFile fs n)"

text \<open>
  The loop over \<^verbatim>\<open>photoFiles\<close>.  \<open>Inl\<close> carries the message of the 400 response the loop
  returns when a voice description names an audio file that was not uploaded.
\<close>

fun processPhotos :: "env \<Rightarrow> uploadFile list \<Rightarrow> descEntry list \<Rightarrow> nat \<Rightarrow> uploadFile list
                      \<Rightarrow> photo list \<Rightarrow> string + photo list" where
  "processPhotos e voices ds idx [] acc = Inr acc"
| "processPhotos e voices ds idx (imageFile # rest) acc =
     (let desc = (if idx < length ds then ds ! idx else emptyDesc);
          description0 = orElse (d_description desc) [];
          type = orElse (d_type desc) ''text''
      in if type = ''voice'' \<and> truthy (d_voiceFile desc) then
           (case findVoiceFile voices (orElse (d_voiceFile desc) []) of
              None \<Rightarrow> Inl (''Audio file '' @ orElse (d_voiceFile desc) [] @ '' not found for photo at index ''
                           @ string_of_nat idx @ ''.'')
            | Some audioFile \<Rightarrow>
                (case speechToText e (file_path audioFile) of
                   None \<Rightarrow>
                     processPhotos e voices ds (Suc idx) rest
                       (acc @ [\<lparr>path = file_path imageFile, description = description0,
                                ptype = type, transcription = []\<rparr>])
                 | Some text \<Rightarrow>
                     processPhotos e voices ds (Suc idx) rest
                       (acc @ [\<lparr>path = file_path imageFile, description = orElse text [],
                                ptype = type, transcription = orElse text []\<rparr>])))
         else processPhotos e voices ds (Suc idx) rest
                (acc @ [\<lparr>path = file_path imageFile, description = description0,
                         ptype = type, transcription = []\<rparr>]))"

text \<open>
  The handler.  \<open>files\<close> is \<^verbatim>\<open>req.files\<close>: the stored files of the fields \<^verbatim>\<open>photos\<close> and
  \<^verbatim>\<open>voices\<close> (a field without files reads as \<^verbatim>\<open>[]\<close>), or \<open>None\<close> for \<^verbatim>\<open>undefined\<close>, which
  is what a request that multer did not read has; reading \<^verbatim>\<open>req.files['photos']\<close> then
  throws, and the \<^verbatim>\<open>catch\<close> of the handler answers 500.
\<close>

definition createReport :: "env \<Rightarrow> createRequest \<Rightarrow> (uploadFile list \<times> uploadFile list) option
                             \<Rightarrow> report list \<Rightarrow> response \<times> report list" where
  "createReport e req files reports =
     (if \<not> truthy (req_jobName req) \<or> \<not> truthy (req_clientName req) \<or> \<not> truthy (req_address req)
      then (Response 400 (JError ''Missing required fields''), reports)
      else case files of
        None \<Rightarrow> (Response 500 (JErrorDetails ''Failed to create report'' (undefinedRead e)), reports)
      | Some (photoFiles, voiceFiles) \<Rightarrow>
          if length photoFiles < 1 \<or> length photoFiles > 20
          then (Response 400 (JError ''You must upload between 1 and 20 photos.''), reports)
          else case parsedDescriptions (req_photoDescriptions req) of
             None \<Rightarrow> (Response 400 (JError ''photoDescriptions array must match number of uploaded images.''), reports)
           | Some ds \<Rightarrow>
               if length ds \<noteq> length photoFiles
               then (Response 400 (JError ''photoDescriptions array must match number of uploaded images.''), reports)
               else case processPhotos e voiceFiles ds 0 photoFiles [] of
                      Inl msg \<Rightarrow> (Response 400 (JError msg), reports)
                    | Inr ps \<Rightarrow>
                        (let report = \<lparr>report_id = string_of_nat (dateNow e),
                                       jobName = orElse (req_jobName req) [],
                                       clientName = orElse (req_clientName req) [],
                                       address = orElse (req_address req) [],
                                       date = orElse (req_date req) (isoDay e),
                                       photos = ps,
                                       status = ''draft'',
                                       createdAt = dateNow e,
                                       aiReport = None\<rparr>
                         in (Response 201 (JReport report), reports @ [report])))"

text \<open>
  The route: multer, when the request is multipart, then the handler.  An upload that ends
  with an error is answered by the error handler of the application with status 500 and
  the message of the error.  When the \<^verbatim>\<open>filename\<close> callback throws, the process ends
  without an answer, and the \<^verbatim>\<open>reports\<close> array, which lives in its memory, with it.
\<close>

definition postReports :: "env \<Rightarrow> createRequest \<Rightarrow> report list \<Rightarrow> response \<times> report list" where
  "postReports e req reports =
     (if \<not> req_multipart req then createReport e req None reports
      else case storeParts e req 0 20 20 (req_files req) [] [] of
             Refused msg \<Rightarrow> (Response 500 (JErrorDetails ''Server error'' msg), reports)
           | Exited \<Rightarrow> (ProcessExit, [])
           | Stored photoFiles voiceFiles \<Rightarrow> createReport e req (Some (photoFiles, voiceFiles)) reports)"

section \<open>Loops over arrays\<close>

text \<open>\<^verbatim>\<open>xs.forEach((x, idx) => body)\<close>: the body transforms the variables it assigns to, here
  the state \<open>s\<close>; \<open>idx\<close> is the index of the first element of the list still to visit.\<close>

fun forEach :: "('a \<Rightarrow> nat \<Rightarrow> 's \<Rightarrow> 's) \<Rightarrow> 'a list \<Rightarrow> nat \<Rightarrow> 's \<Rightarrow> 's" where
  "forEach f [] idx s = s"
| "forEach f (x # xs) idx s = forEach f xs (Suc idx) (f x idx s)"

text \<open>\<^verbatim>\<open>xs.map((x, idx) => body)\<close>\<close>

fun mapIdx :: "('a \<Rightarrow> nat \<Rightarrow> 'b) \<Rightarrow> 'a list \<Rightarrow> nat \<Rightarrow> 'b list" where
  "mapIdx f [] idx = []"
| "mapIdx f (x # xs) idx = f x idx # mapIdx f xs (Suc idx)"

section \<open>String splitting\<close>

text \<open>\<^verbatim>\<open>s.split(sep)\<close> for a non-empty string separator: \<open>cur\<close> holds, reversed, the piece
  being read.\<close>

function splitAcc :: "string \<Rightarrow> string \<Rightarrow> string \<Rightarrow> string list" where
  "splitAcc sep cur [] = [rev cur]"
| "splitAcc sep cur (c # cs) =
     (if sep \<noteq> [] \<and> startsWith (c # cs) sep
      then rev cur # splitAcc sep [] (drop (length sep) (c # cs))
      else splitAcc sep (c # cur) cs)"
  by pat_completeness auto
termination
  by (relation "measure (\<lambda>(sep, cur, s). length s)") auto

definition splitStr :: "string \<Rightarrow> string \<Rightarrow> string list" where
  "splitStr s sep = splitAcc sep [] s"

text \<open>\<^verbatim>\<open>arr[i]\<close> on an array of strings, \<open>None\<close> for \<^verbatim>\<open>undefined\<close>.\<close>

definition at :: "string list \<Rightarrow> nat \<Rightarrow> string option" where
  "at xs i = (if i < length xs then Some (xs ! i) else None)"

section \<open>Narrative generation\<close>

record photoDescription =
  pd_description :: string
  pd_type :: string
  pd_transcription :: string

text \<open>The fixed text of the prompt before and after the list of photo descriptions.\<close>

definition promptHead :: string where
  "promptHead = ''You are a professional property inspector. Analyze the following list of photo descriptions.''
     @ [CHR 0x0A, CHR 0x0A]
     @ ''Generate a professional, concise, and bolded heading for the report that summarizes the main issue(s) described. Do NOT use any hardcoded or generic text.''
     @ [CHR 0x0A, CHR 0x0A]
     @ ''For each photo, generate a detailed, professional report section with the following fields (all fields must be present for each photo, and all field label''
     @ [CHR 0x27] @ ''s headings must be bolded):'' @ [CHR 0x0A, CHR 0x0A]
     @ ''- Problem Description'' @ [CHR 0x0A] @ ''- Recommended Solution'' @ [CHR 0x0A]
     @ ''- Priority Level (High/Medium/Low)'' @ [CHR 0x0A] @ ''- Estimated Cost Range'' @ [CHR 0x0A]
     @ ''- Safety Concerns'' @ [CHR 0x0A, CHR 0x0A]
     @ ''Use clear, and professional language. Do NOT use asterisks, markdown, or any special characters for formatting. Use bolded headings and field labels (e.g., Problem Description:) for each section.''
     @ [CHR 0x0A, CHR 0x0A]"

definition promptTail :: string where
  "promptTail = [CHR 0x0A, CHR 0x0A] @ ''Format the report as follows:'' @ [CHR 0x0A]
     @ ''1. Start with the bolded heading for the report.'' @ [CHR 0x0A]
     @ ''2. For each photo, provide a bolded section heading (Photo X: <filename>) and the bolded field labels.''
     @ [CHR 0x0A] @ ''3. Do not use any markdown or asterisks.''"

definition photoSectionStep :: "photoDescription \<Rightarrow> nat \<Rightarrow> string \<Rightarrow> string" where
  "photoSectionStep photo i photoSection =
     photoSection @ [CHR 0x0A] @ ''Photo '' @ string_of_nat (i + 1) @ '':'' @ [CHR 0x0A]
       @ ''Description: '' @ pd_description photo"

text \<open>\<open>Inl\<close> is the message of the error the function throws.\<close>

definition generateReportContent :: "env \<Rightarrow> photoDescription list \<Rightarrow> string + string" where
  "generateReportContent e photoDescriptions =
     (let photoSection = forEach photoSectionStep photoDescriptions 0 [];
          prompt = promptHead @ photoSection @ promptTail
      in case generateContent e prompt of
           None \<Rightarrow> Inl ''Failed to generate report content. Please try again.''
         | Some text \<Rightarrow> Inr (stripAsterisks text))"

section \<open>Narrative parsing in \<^verbatim>\<open>generateFormattedPDF\<close>\<close>

text \<open>The report title: the job name, or the first line of the narrative when it is long enough.\<close>

definition reportTitle :: "report \<Rightarrow> string" where
  "reportTitle r =
     (let title0 = (if jobName r \<noteq> [] then jobName r else ''Property Inspection Report'')
      in if truthy (aiReport r) then
           (case at (splitStr (orElse (aiReport r) []) [CHR 0x0A]) 0 of
              None \<Rightarrow> title0
            | Some l \<Rightarrow> (let firstLine = trim l
                         in if firstLine \<noteq> [] \<and> length firstLine > 10 then firstLine else title0))
         else title0)"

text \<open>
  The regular expression \<^verbatim>\<open>/Photo\s+\d+:/gi\<close>.  \<open>afterPhotoWord\<close> reads the word in either
  case and returns what follows.  \<open>matchPhotoAt s\<close> is the length of the match that starts at
  the head of \<open>s\<close>: white space, digits and the colon exclude one another, so the greedy
  quantifiers never give a character back.
\<close>

fun afterPhotoWord :: "string \<Rightarrow> string option" where
  "afterPhotoWord (c1 # c2 # c3 # c4 # c5 # rest) =
     (if (c1 = CHR ''P'' \<or> c1 = CHR ''p'') \<and> (c2 = CHR ''h'' \<or> c2 = CHR ''H'')
         \<and> (c3 = CHR ''o'' \<or> c3 = CHR ''O'') \<and> (c4 = CHR ''t'' \<or> c4 = CHR ''T'')
         \<and> (c5 = CHR ''o'' \<or> c5 = CHR ''O'')
      then Some rest else None)"
| "afterPhotoWord s = None"

definition matchPhotoAt :: "string \<Rightarrow> nat option" where
  "matchPhotoAt s =
     (case afterPhotoWord s of
        None \<Rightarrow> None
      | Some rest \<Rightarrow>
          (let spaces = takeWhile isWhiteSpace rest;
               rest2 = dropWhile isWhiteSpace rest;
               digits = takeWhile isDigit rest2;
               rest3 = dropWhile isDigit rest2
           in if spaces \<noteq> [] \<and> digits \<noteq> [] \<and> startsWith rest3 '':''
              then Some (5 + length spaces + length digits + 1) else None))"

text \<open>\<^verbatim>\<open>[...s.matchAll(photoPattern)]\<close>, as the list of the \<^verbatim>\<open>index\<close> of each match: \<open>i\<close> is the
  position of the text still to scan; after a match the scan resumes behind it.\<close>

function photoMatches :: "nat \<Rightarrow> string \<Rightarrow> nat list" where
  "photoMatches i [] = []"
| "photoMatches i (c # cs) =
     (case matchPhotoAt (c # cs) of
        Some n \<Rightarrow> i # photoMatches (i + n) (drop n (c # cs))
      | None \<Rightarrow> photoMatches (i + 1) cs)"
  by pat_completeness auto
termination
  by (relation "measure (\<lambda>(i, s). length s)")
     (auto simp: matchPhotoAt_def Let_def split: option.splits if_splits)

text \<open>The loop over the matches: a section runs from its marker to the next marker, or to the
  end of the text, and is trimmed.\<close>

fun sectionsFrom :: "string \<Rightarrow> nat list \<Rightarrow> string list" where
  "sectionsFrom s [] = []"
| "sectionsFrom s [a] = [trim (substring s a (length s))]"
| "sectionsFrom s (a # b # ms) = trim (substring s a b) # sectionsFrom s (b # ms)"

definition parsedSections :: "report \<Rightarrow> string list" where
  "parsedSections r =
     (if truthy (aiReport r)
      then sectionsFrom (orElse (aiReport r) []) (photoMatches 0 (orElse (aiReport r) []))
      else [])"

definition fallbackSection :: "photo \<Rightarrow> nat \<Rightarrow> string" where
  "fallbackSection photo idx =
     ''Photo '' @ string_of_nat (idx + 1) @ '':'' @ [CHR 0x0A]
       @ (if description photo \<noteq> [] then description photo else ''No description provided.'')"

definition photoSections :: "report \<Rightarrow> string list" where
  "photoSections r =
     (if length (parsedSections r) = 0 \<and> length (photos r) > 0
      then mapIdx fallbackSection (photos r) 0
      else parsedSections r)"

section \<open>Field extraction\<close>

text \<open>
  Each field is read by a regular expression of the shape
  \<^verbatim>\<open>/Label:(.+?)(?=Other1:|Other2:|Other3:|Other4:|$)/s\<close>.  \<open>lazyRest stops cs\<close> extends the
  lazy capture over \<open>cs\<close> until the lookahead holds: one of the other labels starts there, or
  the text ends.  \<open>captureAfter\<close> takes the one character \<^verbatim>\<open>.+?\<close> needs first.
  \<open>matchField\<close> tries each start position from the left, as \<^verbatim>\<open>String.prototype.match\<close> does,
  and returns capture group 1 of the first match.
\<close>

fun lazyRest :: "string list \<Rightarrow> string \<Rightarrow> string" where
  "lazyRest stops [] = []"
| "lazyRest stops (c # cs) =
     (if list_ex (startsWith (c # cs)) stops then [] else c # lazyRest stops cs)"

fun captureAfter :: "string list \<Rightarrow> string \<Rightarrow> string option" where
  "captureAfter stops [] = None"
| "captureAfter stops (c # cs) = Some (c # lazyRest stops cs)"

fun matchField :: "string \<Rightarrow> string list \<Rightarrow> string \<Rightarrow> string option" where
  "matchField label stops [] = None"
| "matchField label stops (c # cs) =
     (if startsWith (c # cs) label
      then (case captureAfter stops (drop (length label) (c # cs)) of
              Some v \<Rightarrow> Some v
            | None \<Rightarrow> matchField label stops cs)
      else matchField label stops cs)"

definition fieldLabels :: "string list" where
  "fieldLabels = [''Problem Description:'', ''Recommended Solution:'', ''Priority Level:'',
                  ''Estimated Cost Range:'', ''Safety Concerns:'']"

text \<open>The regular expression for one label: its lookahead lists the other four labels.\<close>

definition fieldMatch :: "string \<Rightarrow> string \<Rightarrow> string option" where
  "fieldMatch label section = matchField label (filter (\<lambda>l. l \<noteq> label) fieldLabels) section"

text \<open>\<^verbatim>\<open>if (m && m[1])\<close> and the text drawn after the bold label:
  \<^verbatim>\<open>m[1].replace(/\*/g, '').trim()\<close>.\<close>

definition fieldLine :: "string \<Rightarrow> string \<Rightarrow> docop list" where
  "fieldLine label section =
     (case fieldMatch label section of
        None \<Rightarrow> []
      | Some v \<Rightarrow> if v \<noteq> [] then [FieldLine label (trim (stripAsterisks v))] else [])"

definition sectionFields :: "string \<Rightarrow> docop list" where
  "sectionFields section =
     fieldLine ''Problem Description:'' section @ fieldLine ''Recommended Solution:'' section
       @ fieldLine ''Priority Level:'' section @ fieldLine ''Estimated Cost Range:'' section
       @ fieldLine ''Safety Concerns:'' section"

section \<open>\<^verbatim>\<open>generateFormattedPDF\<close>\<close>

definition totalPages :: nat where
  "totalPages = 3"

definition addPageNumber :: "nat \<Rightarrow> docop" where
  "addPageNumber pageNum = PageNumber (''Page '' @ string_of_nat pageNum @ '' of '' @ string_of_nat totalPages)"

definition photoSize :: nat where
  "photoSize = 120"

definition marginLeft :: nat where
  "marginLeft = 50"

text \<open>
  What the function works on.  It is handed a reference to the report object, which is the
  very object the \<^verbatim>\<open>reports\<close> array holds, and it creates the pdfkit document.  Every
  statement of the function is a step from one such state to the next: \<open>asm_report\<close> is
  the report object as it is at that point, \<open>asm_doc\<close> the calls made on the document so far.
\<close>

record assembly =
  asm_report :: report
  asm_doc :: "docop list"

text \<open>Calls on the document: they extend it.  The document holds no reference to the
  report.\<close>

definition draw :: "docop list \<Rightarrow> assembly \<Rightarrow> assembly" where
  "draw ops a = a\<lparr>asm_doc := asm_doc a @ ops\<rparr>"

text \<open>The variables of a photo grid loop: the cell position and the cell count, with the
  state the loop body works on.\<close>

record grid =
  gx :: nat
  gy :: nat
  gcount :: nat
  gasm :: assembly

text \<open>
  The \<^verbatim>\<open>try\<close> block of a grid cell: the image with its border when the file exists and pdfkit
  reads it; the border with the note of the \<^verbatim>\<open>else\<close> branch when the file is missing; the
  border with the note of the \<^verbatim>\<open>catch\<close> block when \<^verbatim>\<open>doc.image\<close> throws.
\<close>

definition cellDrawn :: "env \<Rightarrow> photo \<Rightarrow> nat \<Rightarrow> nat \<Rightarrow> docop list" where
  "cellDrawn e photo x y =
     (if existsSync e (path photo) then
        (if imageLoads e (path photo)
         then [Image (path photo) x y, Rect x y]
         else [Rect x y, CellNote ''Error loading photo'' (x + 10) (y + photoSize div 2)])
      else [Rect x y, CellNote ''Photo not available'' (x + 10) (y + photoSize div 2)])"

text \<open>The photo number below the cell.\<close>

definition cellLabel :: "nat \<Rightarrow> nat \<Rightarrow> nat \<Rightarrow> docop" where
  "cellLabel n x y = CellLabel (''Photo '' @ string_of_nat n) x (y + photoSize + 5)"

text \<open>
  One iteration of a grid loop.  \<open>base\<close> is 0 for the grid of the first page and 9 for the
  grid of the remaining photos, whose number is \<^verbatim>\<open>actualIdx + 1\<close>.
\<close>

definition gridCell :: "env \<Rightarrow> nat \<Rightarrow> photo \<Rightarrow> nat \<Rightarrow> grid \<Rightarrow> grid" where
  "gridCell e base photo idx g =
     (let x = gx g; y = gy g;
          a = draw (cellDrawn e photo x y @ [cellLabel (base + idx + 1) x y]) (gasm g);
          count = gcount g + 1
      in if count mod 3 = 0
         then \<lparr>gx = marginLeft, gy = y + photoSize + 30, gcount = count, gasm = a\<rparr>
         else \<lparr>gx = x + photoSize + 20, gy = y, gcount = count, gasm = a\<rparr>)"

text \<open>A whole grid over the photos \<open>ps\<close>, a slice of \<^verbatim>\<open>report.photos\<close>: the loop, the move
  below a last incomplete row, and \<^verbatim>\<open>doc.y = y\<close>.\<close>

definition photoGrid :: "env \<Rightarrow> nat \<Rightarrow> photo list \<Rightarrow> assembly \<Rightarrow> assembly" where
  "photoGrid e base ps a =
     (let g = forEach (gridCell e base) ps 0 \<lparr>gx = marginLeft, gy = 0, gcount = 0, gasm = a\<rparr>;
          y = (if gcount g mod 3 \<noteq> 0 then gy g + photoSize + 30 else gy g)
      in draw [SetY y] (gasm g))"

text \<open>What one iteration of the breakdown loop draws for a photo, before the page-break test.\<close>

definition breakdownEntry :: "string list \<Rightarrow> photo \<Rightarrow> nat \<Rightarrow> docop list" where
  "breakdownEntry sections photo idx =
     (let section = orElse (at sections idx) []
      in [PhotoHeading (''Photo '' @ string_of_nat (idx + 1) @ '':'')]
         @ (if section \<noteq> [] then sectionFields section
            else [DescriptionLine (if description photo \<noteq> [] then description photo
                                   else '' No description provided.'')])
         @ [MoveDown])"

text \<open>One iteration of the breakdown loop; the page-break test reads
  \<^verbatim>\<open>report.photos.length\<close> from the report object.\<close>

definition breakdownStep :: "env \<Rightarrow> string \<Rightarrow> string list \<Rightarrow> photo \<Rightarrow> nat \<Rightarrow> assembly
                              \<Rightarrow> assembly" where
  "breakdownStep e title sections photo idx a =
     (let a1 = draw (breakdownEntry sections photo idx) a
      in if pageOverflow e (asm_doc a1) \<and> idx + 1 < length (photos (asm_report a1))
         then draw [AddPage, addPageNumber 2, Title title,
                    ContinuationHeader ''Reference Photo breakdown (continued):''] a1
         else a1)"

text \<open>The services section: the text between the two headings of the narrative, or a default.\<close>

definition recommendedServices :: "report \<Rightarrow> string" where
  "recommendedServices r =
     (let ai = orElse (aiReport r) []
      in if truthy (aiReport r) \<and> includesStr ai ''Recommended Services:'' then
           (case at (splitStr ai ''Recommended Services:'') 1 of
              None \<Rightarrow> ''No recommended services to be added.''
            | Some servicesSection \<Rightarrow>
                if servicesSection \<noteq> [] \<and> includesStr servicesSection ''Additional Notes:''
                then trim (orElse (at (splitStr servicesSection ''Additional Notes:'') 0) [])
                else if servicesSection \<noteq> [] then trim servicesSection
                else ''No recommended services to be added.'')
         else ''No recommended services to be added.'')"

text \<open>One line of the services section; the second bullet prefix of the source contains a
  code unit above 255, which no modelled string starts with.\<close>

definition serviceLine :: "string \<Rightarrow> nat \<Rightarrow> assembly \<Rightarrow> assembly" where
  "serviceLine line idx a =
     (let trimmedLine = trim line
      in if trimmedLine = [] then a
         else if startsWith trimmedLine ''-'' then draw [BulletLine trimmedLine] a
         else draw [TextLine trimmedLine] a)"

definition additionalNotes :: "report \<Rightarrow> docop" where
  "additionalNotes r =
     (let ai = orElse (aiReport r) []
      in if truthy (aiReport r) \<and> includesStr ai ''Additional Notes:'' then
           (let notes = trim (orElse (at (splitStr ai ''Additional Notes:'') 1) [])
            in if notes \<noteq> [] then TextLine notes
               else TextLine ''No additional project notes at this time.'')
         else TextLine ''No additional project notes at this time.'')"

text \<open>Page 1: the title, the issue statement and the grid of the first nine photos.
  \<open>title\<close> is the constant \<^verbatim>\<open>reportTitle\<close>, computed once at the start.\<close>

definition page1 :: "env \<Rightarrow> string \<Rightarrow> assembly \<Rightarrow> assembly" where
  "page1 e title a =
     (let a1 = draw [AddPage, addPageNumber 1, Title title, Issue (''Issue: '' @ title),
                     SectionHeader ''Reference Photos:''] a
      in photoGrid e 0 (take 9 (photos (asm_report a1))) a1)"

text \<open>Page 2 and its continuation pages: the breakdown, one entry per photo.\<close>

definition page2 :: "env \<Rightarrow> string \<Rightarrow> assembly \<Rightarrow> assembly" where
  "page2 e title a =
     (let a1 = draw [AddPage, addPageNumber 2, Title title,
                     SectionHeader ''Reference Photo breakdown:''] a;
          sections = photoSections (asm_report a1)
      in forEach (breakdownStep e title sections) (photos (asm_report a1)) 0 a1)"

text \<open>Page 3: the grid of the photos after the ninth, the services, the notes, and
  \<^verbatim>\<open>doc.end()\<close>.\<close>

definition page3 :: "env \<Rightarrow> string \<Rightarrow> assembly \<Rightarrow> assembly" where
  "page3 e title a =
     (let a1 = draw [AddPage, addPageNumber 3, Title title] a;
          a2 = (if length (photos (asm_report a1)) > 9
                then draw [MoveDown]
                       (photoGrid e 9 (drop 9 (photos (asm_report a1)))
                          (draw [SectionHeader ''Additional Photos:''] a1))
                else a1);
          a3 = draw [SectionHeader ''Recommended Services:''] a2;
          a4 = forEach serviceLine (splitStr (recommendedServices (asm_report a3)) [CHR 0x0A]) 0 a3
      in draw [MoveDown, SectionHeader ''Additional Notes:'', additionalNotes (asm_report a4), EndDoc] a4)"

text \<open>The body of the function, from the report object handed in and a new document.\<close>

definition assemble :: "env \<Rightarrow> report \<Rightarrow> assembly" where
  "assemble e r =
     (let a0 = \<lparr>asm_report = r, asm_doc = []\<rparr>;
          title = reportTitle (asm_report a0)
      in page3 e title (page2 e title (page1 e title a0)))"

text \<open>The calls made on the document, in order.\<close>

definition docOps :: "env \<Rightarrow> report \<Rightarrow> docop list" where
  "docOps e r = asm_doc (assemble e r)"

definition sinkOk :: "env \<Rightarrow> string \<Rightarrow> bool" where
  "sinkOk e outputPath = (sinkError e outputPath = None)"

text \<open>
  The promise: resolved with the document written to \<open>outputPath\<close>, or rejected with the
  error of the write stream.  The second component is the report object as the function
  leaves it.
\<close>

definition generateFormattedPDF :: "env \<Rightarrow> report \<Rightarrow> string \<Rightarrow> (string + docop list) \<times> report" where
  "generateFormattedPDF e r outputPath =
     (let a = assemble e r
      in (case sinkError e outputPath of None \<Rightarrow> Inr (asm_doc a) | Some msg \<Rightarrow> Inl msg,
          asm_report a))"

section \<open>The other endpoints\<close>

text \<open>
  \<^verbatim>\<open>reports.find(r => r.id === id)\<close>, as the index of the report found.  A handler that
  passes the report on passes the object of the array: what the callee leaves of it is
  what the array holds afterwards.
\<close>

fun findReport :: "report list \<Rightarrow> string \<Rightarrow> nat \<Rightarrow> nat option" where
  "findReport [] i k = None"
| "findReport (r # rs) i k = (if report_id r = i then Some k else findReport rs i (Suc k))"

definition pdfPath :: "report \<Rightarrow> string" where
  "pdfPath r = ''report-'' @ report_id r @ ''.pdf''"

text \<open>GET /api/reports/:id/pdf\<close>

definition getPdf :: "env \<Rightarrow> string \<Rightarrow> report list \<Rightarrow> response \<times> report list" where
  "getPdf e i reports =
     (case findReport reports i 0 of
        None \<Rightarrow> (Response 404 (JError ''Report not found''), reports)
      | Some k \<Rightarrow>
          (case generateFormattedPDF e (reports ! k) (pdfPath (reports ! k)) of
             (Inl msg, report) \<Rightarrow>
               (Response 500 (JErrorDetails ''Failed to generate PDF content'' msg), reports[k := report])
           | (Inr doc, report) \<Rightarrow>
               (Response 200 (Download (pdfPath report) doc), reports[k := report])))"

text \<open>POST /api/reports/:id/email\<close>

definition emailReport :: "env \<Rightarrow> string \<Rightarrow> string option \<Rightarrow> report list \<Rightarrow> response \<times> report list" where
  "emailReport e i email reports =
     (case findReport reports i 0 of
        None \<Rightarrow> (Response 404 (JError ''Report not found''), reports)
      | Some k \<Rightarrow>
          (case generateFormattedPDF e (reports ! k) (pdfPath (reports ! k)) of
             (Inl msg, report) \<Rightarrow>
               (Response 500 (JErrorDetails ''Failed to send email'' msg), reports[k := report])
           | (Inr doc, report) \<Rightarrow>
               (case sendMail e email (pdfPath (reports ! k)) of
                  None \<Rightarrow> (Response 200 (JMessage ''Email sent successfully''), reports[k := report])
                | Some msg \<Rightarrow>
                    (Response 500 (JErrorDetails ''Failed to send email'' msg), reports[k := report]))))"

text \<open>GET /api/reports and GET /api/reports/:id\<close>

definition listReports :: "report list \<Rightarrow> response \<times> report list" where
  "listReports reports = (Response 200 (JReports reports), reports)"

definition getReport :: "string \<Rightarrow> report list \<Rightarrow> response \<times> report list" where
  "getReport i reports =
     (case findReport reports i 0 of
        None \<Rightarrow> (Response 404 (JError ''Report not found''), reports)
      | Some k \<Rightarrow> (Response 200 (JReport (reports ! k)), reports))"

text \<open>POST /api/reports/:id/analyze; \<open>force\<close> is the truthiness of \<^verbatim>\<open>req.body.force\<close>.\<close>

definition describePhoto :: "photo \<Rightarrow> photoDescription" where
  "describePhoto p = \<lparr>pd_description = description p, pd_type = ptype p,
                       pd_transcription = transcription p\<rparr>"

definition analyzeReport :: "env \<Rightarrow> string \<Rightarrow> bool \<Rightarrow> report list \<Rightarrow> response \<times> report list" where
  "analyzeReport e i force reports =
     (case findReport reports i 0 of
        None \<Rightarrow> (Response 404 (JError ''Report not found''), reports)
      | Some k \<Rightarrow>
          (let report = reports ! k
           in if truthy (aiReport report) \<and> \<not> force
              then (Response 200 (JAiReport (aiReport report)), reports)
              else (case generateReportContent e (map describePhoto (photos report)) of
                      Inl msg \<Rightarrow> (Response 500 (JErrorDetails ''Failed to analyze report'' msg), reports)
                    | Inr ai \<Rightarrow> (Response 200 (JAiReport (Some ai)),
                                 reports[k := report\<lparr>aiReport := Some ai\<rparr>]))))"

text \<open>
  PATCH /api/reports/:id.  The body is modelled for the keys a report has, each with a
  value of the field's type, and \<open>None\<close> for a key the body lacks; a key the report does not
  have is skipped by the loop and has no place here.  \<^verbatim>\<open>aiReport\<close> may be set to \<^verbatim>\<open>null\<close>.
\<close>

record patchBody =
  p_id :: "string option"
  p_jobName :: "string option"
  p_clientName :: "string option"
  p_address :: "string option"
  p_date :: "string option"
  p_photos :: "photo list option"
  p_status :: "string option"
  p_createdAt :: "nat option"
  p_aiReport :: "string option option"

text \<open>\<^verbatim>\<open>if (key in report) report[key] = req.body[key]\<close>, for one key.\<close>

fun assign :: "'a option \<Rightarrow> 'a \<Rightarrow> 'a" where
  "assign None old = old"
| "assign (Some v) old = v"

definition applyPatch :: "patchBody \<Rightarrow> report \<Rightarrow> report" where
  "applyPatch b r =
     \<lparr>report_id = assign (p_id b) (report_id r),
      jobName = assign (p_jobName b) (jobName r),
      clientName = assign (p_clientName b) (clientName r),
      address = assign (p_address b) (address r),
      date = assign (p_date b) (date r),
      photos = assign (p_photos b) (photos r),
      status = assign (p_status b) (status r),
      createdAt = assign (p_createdAt b) (createdAt r),
      aiReport = assign (p_aiReport b) (aiReport r)\<rparr>"

definition patchReport :: "string \<Rightarrow> patchBody \<Rightarrow> report list \<Rightarrow> response \<times> report list" where
  "patchReport i b reports =
     (case findReport reports i 0 of
        None \<Rightarrow> (Response 404 (JError ''Report not found''), reports)
      | Some k \<Rightarrow> (Response 200 (JReport (applyPatch b (reports ! k))),
                   reports[k := applyPatch b (reports ! k)]))"

section \<open>The route table\<close>

text \<open>The requests the server answers, and the handler each route runs.\<close>

datatype request =
    Create createRequest
  | GetPdf string
  | Email string "string option"
  | ListAll
  | GetOne string
  | Analyze string bool
  | Patch string patchBody

fun handle :: "env \<Rightarrow> request \<Rightarrow> report list \<Rightarrow> response \<times> report list" where
  "handle e (Create req) reports = postReports e req reports"
| "handle e (GetPdf i) reports = getPdf e i reports"
| "handle e (Email i email) reports = emailReport e i email reports"
| "handle e ListAll reports = listReports reports"
| "handle e (GetOne i) reports = getReport i reports"
| "handle e (Analyze i force) reports = analyzeReport e i force reports"
| "handle e (Patch i b) reports = patchReport i b reports"

section \<open>Concrete inputs\<close>

text \<open>A collaborator setting in which every service fails and no file exists.\<close>

definition env0 :: env where
  "env0 = \<lparr>dateNow = 1000, isoDay = ''2024-01-01'', speechToText = (\<lambda>p. None),
            generateContent = (\<lambda>p. None), existsSync = (\<lambda>p. False), imageLoads = (\<lambda>p. False),
            pageOverflow = (\<lambda>d. False), sinkError = (\<lambda>p. None), sendMail = (\<lambda>a p. None),
            uniqueSuffix = (\<lambda>n. ''1000-'' @ string_of_nat n), extname = (\<lambda>n. ''.jpg''),
            undefinedRead = ''Cannot read properties of undefined (reading '' @ [CHR 0x27] @ ''photos'' @ [CHR 0x27] @ '')''\<rparr>"





text \<open>A multipart request with complete job metadata, the given \<^verbatim>\<open>photoDescriptions\<close> field
  ahead of the given file parts.\<close>

definition upload :: "descsField \<Rightarrow> filePart list \<Rightarrow> createRequest" where
  "upload field parts = \<lparr>req_multipart = True, req_jobName = Some ''Kitchen'',
      req_clientName = Some ''Acme'', req_address = Some ''1 Main St'', req_date = None,
      req_photoDescriptions = field, req_descriptionsAfter = 0, req_files = parts\<rparr>"








section \<open>Predicates used in the statements\<close>










text \<open>The calls that start a breakdown entry.\<close>

fun isPhotoHeading :: "docop \<Rightarrow> bool" where
  "isPhotoHeading (PhotoHeading s) = True"
| "isPhotoHeading op = False"

text \<open>The section at a list position, empty when the list is too short.\<close>

definition sectionAt :: "string list \<Rightarrow> nat \<Rightarrow> string" where
  "sectionAt sections i = (if i < length sections then sections ! i else [])"

section \<open>More concrete inputs\<close>

definition crackedTile :: photo where
  "crackedTile = \<lparr>path = ''uploads/a.jpg'', description = ''cracked tile'', ptype = ''text'',
                   transcription = []\<rparr>"

definition leakingPipe :: photo where
  "leakingPipe = \<lparr>path = ''uploads/b.jpg'', description = ''leaking pipe'', ptype = ''text'',
                   transcription = []\<rparr>"

text \<open>A report as creation leaves it: one photo, no narrative yet.\<close>

definition report1 :: report where
  "report1 = \<lparr>report_id = ''1'', jobName = ''Kitchen'', clientName = ''Acme'', address = ''1 Main St'',
     date = ''2024-01-01'', photos = [crackedTile], status = ''draft'', createdAt = 0, aiReport = None\<rparr>"



text \<open>A collaborator setting in which the generation service answers.\<close>

definition envGen :: env where
  "envGen = env0\<lparr>generateContent := (\<lambda>p. Some ''Roof and **Kitchen** Issues'')\<rparr>"

text \<open>A collaborator setting in which every file exists and none can be drawn.\<close>

definition envUnreadable :: env where
  "envUnreadable = env0\<lparr>existsSync := (\<lambda>p. True)\<rparr>"

text \<open>Two photos; the narrative numbers its two sections in the opposite order.\<close>

definition reportMislabelled :: report where
  "reportMislabelled = \<lparr>report_id = ''2'', jobName = ''Kitchen'', clientName = ''Acme'', address = ''1 Main St'',
     date = ''2024-01-01'', photos = [crackedTile, leakingPipe], status = ''draft'', createdAt = 0,
     aiReport = Some (''Roof and Kitchen Issues'' @ [CHR 0x0A]
                @ ''Photo 2: Problem Description: Cracked tile.'' @ [CHR 0x0A]
                @ ''Photo 1: Problem Description: Leaking pipe.'')\<rparr>"

section \<open>The claimed field extraction\<close>

text \<open>
  Field extraction as claim C5 words it, for comparison with \<open>fieldLine\<close>: the text after
  the first occurrence of the label, up to the next place where any of the five labels
  starts or to the end of the text, with asterisks and surrounding white space removed;
  \<open>None\<close> when the label does not occur.
\<close>

fun afterLabel :: "string \<Rightarrow> string \<Rightarrow> string option" where
  "afterLabel label [] = None"
| "afterLabel label (c # cs) =
     (if startsWith (c # cs) label then Some (drop (length label) (c # cs)) else afterLabel label cs)"

fun untilLabel :: "string list \<Rightarrow> string \<Rightarrow> string" where
  "untilLabel labels [] = []"
| "untilLabel labels (c # cs) =
     (if list_ex (startsWith (c # cs)) labels then [] else c # untilLabel labels cs)"

definition claimedField :: "string \<Rightarrow> string \<Rightarrow> string option" where
  "claimedField label section =
     (case afterLabel label section of
        None \<Rightarrow> None
      | Some rest \<Rightarrow> Some (trim (stripAsterisks (untilLabel fieldLabels rest))))"

text \<open>A section in which one label directly follows another, a section in which a label
  comes twice, and a section without \<^verbatim>\<open>Priority Level:\<close> whose labels are out of the
  usual order.\<close>

definition sectionAdjacentLabels :: string where
  "sectionAdjacentLabels = ''Photo 1: Problem Description:Recommended Solution: Replace the tile.''"

definition sectionRepeatedLabel :: string where
  "sectionRepeatedLabel = ''Photo 1: Problem Description: Crack. Problem Description: Leak.''"

definition sectionNoPriority :: string where
  "sectionNoPriority = ''Photo 1: Safety Concerns: Loose wiring. Problem Description: **Cracked** tile.''"

section \<open>The claimed heading\<close>

text \<open>
  The heading as claim C3 words it, for comparison with \<open>reportTitle\<close>: the first line of
  the narrative that is not blank, with asterisks and surrounding white space removed, and
  the default \<^verbatim>\<open>Site Inspection Report\<close> when the narrative is null or empty (or has no
  such line).
\<close>

definition claimedHeading :: "string option \<Rightarrow> string" where
  "claimedHeading narrative =
     (if truthy narrative then
        (case filter (\<lambda>l. trim l \<noteq> []) (splitStr (orElse narrative []) [CHR 0x0A]) of
           [] \<Rightarrow> ''Site Inspection Report''
         | l # ls \<Rightarrow> trim (stripAsterisks l))
      else ''Site Inspection Report'')"

text \<open>The report \<open>report1\<close> with a narrative whose first line is short, with one whose
  first line is long, and with one that has no photo marker.\<close>

definition reportShortHeading :: report where
  "reportShortHeading = report1\<lparr>aiReport := Some (''Leaks'' @ [CHR 0x0A]
                                   @ ''Photo 1: Problem Description: Cracked tile.'')\<rparr>"

definition reportNoMarkers :: report where
  "reportNoMarkers = report1\<lparr>aiReport := Some ''The kitchen needs repairs.''\<rparr>"

definition reportLongHeading :: report where
  "reportLongHeading = report1\<lparr>aiReport := Some (''  Kitchen Issues '' @ [CHR 0x0A]
                                   @ ''Photo 1: Problem Description: Cracked tile.'')\<rparr>"

section \<open>Report creation\<close>





















section \<open>The document as a sequence of calls\<close>

lemma draw_report: "asm_report (draw ops a) = asm_report a"
  by (simp add: draw_def)

lemma draw_doc: "asm_doc (draw ops a) = asm_doc a @ ops"
  by (simp add: draw_def)

lemma gridCell_report: "asm_report (gasm (gridCell e base p idx g)) = asm_report (gasm g)"
  by (simp add: gridCell_def Let_def draw_report)

lemma gridCell_doc:
  "asm_doc (gasm (gridCell e base p idx g))
     = asm_doc (gasm g) @ cellDrawn e p (gx g) (gy g) @ [cellLabel (base + idx + 1) (gx g) (gy g)]"
  by (simp add: gridCell_def Let_def draw_doc)

lemma grid_report: "asm_report (gasm (forEach (gridCell e base) ps idx g)) = asm_report (gasm g)"
  by (induction ps arbitrary: idx g) (simp_all add: gridCell_report)

lemma grid_extends:
  "\<exists>post. asm_doc (gasm (forEach (gridCell e base) ps idx g)) = asm_doc (gasm g) @ post
          \<and> filter isPhotoHeading post = []"
proof (induction ps arbitrary: idx g)
  case Nil
  then show ?case by simp
next
  case (Cons p ps)
  obtain post where post: "asm_doc (gasm (forEach (gridCell e base) ps (Suc idx) (gridCell e base p idx g)))
      = asm_doc (gasm (gridCell e base p idx g)) @ post" "filter isPhotoHeading post = []"
    using Cons.IH by blast
  have "filter isPhotoHeading (cellDrawn e p (gx g) (gy g)) = []"
    and "\<not> isPhotoHeading (cellLabel (base + idx + 1) (gx g) (gy g))"
    by (simp_all add: cellDrawn_def cellLabel_def)
  then show ?case using post by (simp add: gridCell_doc)
qed

lemma grid_cell_at:
  "i < length ps \<Longrightarrow>
   \<exists>pre post x y. asm_doc (gasm (forEach (gridCell e base) ps idx g))
       = asm_doc (gasm g) @ pre @ cellDrawn e (ps ! i) x y @ [cellLabel (base + idx + i + 1) x y] @ post"
proof (induction ps arbitrary: idx g i)
  case Nil
  then show ?case by simp
next
  case (Cons p ps)
  let ?g = "gridCell e base p idx g"
  show ?case
  proof (cases i)
    case 0
    obtain post where "asm_doc (gasm (forEach (gridCell e base) ps (Suc idx) ?g)) = asm_doc (gasm ?g) @ post"
      using grid_extends by blast
    then have "asm_doc (gasm (forEach (gridCell e base) (p # ps) idx g))
       = asm_doc (gasm g) @ [] @ cellDrawn e ((p # ps) ! i) (gx g) (gy g)
           @ [cellLabel (base + idx + i + 1) (gx g) (gy g)] @ post"
      using 0 by (simp add: gridCell_doc)
    then show ?thesis by blast
  next
    case (Suc j)
    then have "j < length ps" using Cons.prems by simp
    from Cons.IH[OF this, of "Suc idx" ?g]
    obtain pre post x y where "asm_doc (gasm (forEach (gridCell e base) ps (Suc idx) ?g))
       = asm_doc (gasm ?g) @ pre @ cellDrawn e (ps ! j) x y @ [cellLabel (base + Suc idx + j + 1) x y] @ post"
      by blast
    then have "asm_doc (gasm (forEach (gridCell e base) (p # ps) idx g))
       = asm_doc (gasm g) @ (cellDrawn e p (gx g) (gy g) @ [cellLabel (base + idx + 1) (gx g) (gy g)] @ pre)
           @ cellDrawn e ((p # ps) ! i) x y @ [cellLabel (base + idx + i + 1) x y] @ post"
      using Suc by (simp add: gridCell_doc)
    then show ?thesis by blast
  qed
qed

lemma photoGrid_report: "asm_report (photoGrid e base ps a) = asm_report a"
  by (simp add: photoGrid_def Let_def draw_report grid_report)

lemma photoGrid_extends:
  "\<exists>post. asm_doc (photoGrid e base ps a) = asm_doc a @ post \<and> filter isPhotoHeading post = []"
proof -
  obtain post where "asm_doc (gasm (forEach (gridCell e base) ps 0 \<lparr>gx = marginLeft, gy = 0, gcount = 0, gasm = a\<rparr>))
       = asm_doc a @ post"
    "filter isPhotoHeading post = []"
    using grid_extends[of e base ps 0 "\<lparr>gx = marginLeft, gy = 0, gcount = 0, gasm = a\<rparr>"] by auto
  then show ?thesis by (simp add: photoGrid_def Let_def draw_doc)
qed

lemma photoGrid_cell_at:
  assumes "i < length ps"
  shows "\<exists>pre post x y. asm_doc (photoGrid e base ps a)
       = asm_doc a @ pre @ cellDrawn e (ps ! i) x y @ [cellLabel (base + i + 1) x y] @ post"
proof -
  let ?g = "forEach (gridCell e base) ps 0 \<lparr>gx = marginLeft, gy = 0, gcount = 0, gasm = a\<rparr>"
  from grid_cell_at[OF assms, of e base 0 "\<lparr>gx = marginLeft, gy = 0, gcount = 0, gasm = a\<rparr>"]
  obtain pre post x y where "asm_doc (gasm ?g)
       = asm_doc a @ pre @ cellDrawn e (ps ! i) x y @ [cellLabel (base + i + 1) x y] @ post"
    by auto
  then have "asm_doc (photoGrid e base ps a)
       = asm_doc a @ pre @ cellDrawn e (ps ! i) x y @ [cellLabel (base + i + 1) x y]
           @ (post @ [SetY (if gcount ?g mod 3 \<noteq> 0 then gy ?g + photoSize + 30 else gy ?g)])"
    by (simp add: photoGrid_def Let_def draw_doc)
  then show ?thesis by blast
qed

lemma fieldLine_no_heading: "filter isPhotoHeading (fieldLine l s) = []"
  by (simp add: fieldLine_def split: option.splits)

lemma sectionFields_no_heading: "filter isPhotoHeading (sectionFields s) = []"
  by (simp add: sectionFields_def fieldLine_no_heading)

lemma entry_one_heading: "length (filter isPhotoHeading (breakdownEntry secs p idx)) = 1"
  by (simp add: breakdownEntry_def Let_def sectionFields_no_heading)

lemma breakdownStep_report: "asm_report (breakdownStep e t secs p idx a) = asm_report a"
  by (simp add: breakdownStep_def Let_def draw_report)

lemma breakdownStep_doc:
  "\<exists>brk. asm_doc (breakdownStep e t secs p idx a) = asm_doc a @ breakdownEntry secs p idx @ brk
         \<and> filter isPhotoHeading brk = []"
  by (simp add: breakdownStep_def Let_def addPageNumber_def draw_doc)

lemma breakdown_report: "asm_report (forEach (breakdownStep e t secs) ps idx a) = asm_report a"
  by (induction ps arbitrary: idx a) (simp_all add: breakdownStep_report)

lemma breakdown_extends:
  "\<exists>post. asm_doc (forEach (breakdownStep e t secs) ps idx a) = asm_doc a @ post"
proof (induction ps arbitrary: idx a)
  case Nil
  then show ?case by simp
next
  case (Cons p ps)
  obtain brk where b: "asm_doc (breakdownStep e t secs p idx a) = asm_doc a @ breakdownEntry secs p idx @ brk"
    using breakdownStep_doc by blast
  obtain post where "asm_doc (forEach (breakdownStep e t secs) ps (Suc idx) (breakdownStep e t secs p idx a))
      = asm_doc (breakdownStep e t secs p idx a) @ post"
    using Cons.IH by blast
  then show ?case using b by simp
qed

lemma breakdown_entry_at:
  "i < length ps \<Longrightarrow>
   \<exists>pre post. asm_doc (forEach (breakdownStep e t secs) ps idx a)
       = asm_doc a @ pre @ breakdownEntry secs (ps ! i) (idx + i) @ post
     \<and> length (filter isPhotoHeading pre) = i"
proof (induction ps arbitrary: idx a i)
  case Nil
  then show ?case by simp
next
  case (Cons p ps)
  obtain brk where b: "asm_doc (breakdownStep e t secs p idx a) = asm_doc a @ breakdownEntry secs p idx @ brk"
      "filter isPhotoHeading brk = []"
    using breakdownStep_doc by blast
  let ?d = "breakdownStep e t secs p idx a"
  show ?case
  proof (cases i)
    case 0
    obtain post where "asm_doc (forEach (breakdownStep e t secs) ps (Suc idx) ?d) = asm_doc ?d @ post"
      using breakdown_extends by blast
    then have "asm_doc (forEach (breakdownStep e t secs) (p # ps) idx a)
       = asm_doc a @ [] @ breakdownEntry secs ((p # ps) ! i) (idx + i) @ (brk @ post)
       \<and> length (filter isPhotoHeading []) = i"
      using 0 b by simp
    then show ?thesis by blast
  next
    case (Suc j)
    then have "j < length ps" using Cons.prems by simp
    from Cons.IH[OF this, of "Suc idx" ?d]
    obtain pre post where pp: "asm_doc (forEach (breakdownStep e t secs) ps (Suc idx) ?d)
       = asm_doc ?d @ pre @ breakdownEntry secs (ps ! j) (Suc idx + j) @ post"
       "length (filter isPhotoHeading pre) = j"
      by blast
    have "asm_doc (forEach (breakdownStep e t secs) (p # ps) idx a)
       = asm_doc a @ (breakdownEntry secs p idx @ brk @ pre) @ breakdownEntry secs ((p # ps) ! i) (idx + i) @ post"
      using Suc pp(1) b(1) by simp
    moreover have "length (filter isPhotoHeading (breakdownEntry secs p idx @ brk @ pre)) = i"
      using Suc pp(2) b(2) entry_one_heading[of secs p idx] by simp
    ultimately show ?thesis by blast
  qed
qed

lemma serviceLine_report: "asm_report (serviceLine l idx a) = asm_report a"
  by (simp add: serviceLine_def Let_def draw_report)

lemma service_report: "asm_report (forEach serviceLine ls idx a) = asm_report a"
  by (induction ls arbitrary: idx a) (simp_all add: serviceLine_report)

lemma service_extends:
  "\<exists>post. asm_doc (forEach serviceLine ls idx a) = asm_doc a @ post \<and> filter isPhotoHeading post = []"
proof (induction ls arbitrary: idx a)
  case Nil
  then show ?case by simp
next
  case (Cons l ls)
  obtain b where b: "asm_doc (serviceLine l idx a) = asm_doc a @ b" "filter isPhotoHeading b = []"
    by (cases "trim l = []"; cases "startsWith (trim l) ''-''") (auto simp: serviceLine_def Let_def draw_doc)
  obtain post where "asm_doc (forEach serviceLine ls (Suc idx) (serviceLine l idx a)) = asm_doc (serviceLine l idx a) @ post"
     "filter isPhotoHeading post = []"
    using Cons.IH by blast
  then have "asm_doc (forEach serviceLine (l # ls) idx a) = asm_doc a @ (b @ post)
             \<and> filter isPhotoHeading (b @ post) = []"
    using b by simp
  then show ?case by blast
qed

lemma page1_report: "asm_report (page1 e t a) = asm_report a"
  by (simp add: page1_def Let_def photoGrid_report draw_report)

lemma page1_extends:
  "\<exists>post. asm_doc (page1 e t a) = asm_doc a @ [AddPage, addPageNumber 1, Title t] @ post
          \<and> filter isPhotoHeading post = []"
proof -
  let ?a1 = "draw [AddPage, addPageNumber 1, Title t, Issue (''Issue: '' @ t),
                     SectionHeader ''Reference Photos:''] a"
  obtain post where "asm_doc (photoGrid e 0 (take 9 (photos (asm_report ?a1))) ?a1) = asm_doc ?a1 @ post"
      "filter isPhotoHeading post = []"
    using photoGrid_extends by blast
  then have "asm_doc (page1 e t a) = asm_doc a @ [AddPage, addPageNumber 1, Title t]
                @ ([Issue (''Issue: '' @ t), SectionHeader ''Reference Photos:''] @ post)
          \<and> filter isPhotoHeading ([Issue (''Issue: '' @ t), SectionHeader ''Reference Photos:''] @ post) = []"
    by (simp add: page1_def Let_def draw_doc)
  then show ?thesis by blast
qed

lemma page1_cell_at:
  assumes "i < length (photos (asm_report a))" and "i < 9"
  shows "\<exists>pre post x y. asm_doc (page1 e t a)
           = asm_doc a @ pre @ cellDrawn e (photos (asm_report a) ! i) x y @ [cellLabel (i + 1) x y] @ post"
proof -
  let ?a1 = "draw [AddPage, addPageNumber 1, Title t, Issue (''Issue: '' @ t),
                     SectionHeader ''Reference Photos:''] a"
  have "i < length (take 9 (photos (asm_report ?a1)))" using assms by (simp add: draw_report)
  from photoGrid_cell_at[OF this, of e 0 ?a1]
  obtain pre post x y where "asm_doc (photoGrid e 0 (take 9 (photos (asm_report ?a1))) ?a1)
      = asm_doc ?a1 @ pre @ cellDrawn e (take 9 (photos (asm_report ?a1)) ! i) x y @ [cellLabel (0 + i + 1) x y] @ post"
    by blast
  then have "asm_doc (page1 e t a) = asm_doc a @ ([AddPage, addPageNumber 1, Title t, Issue (''Issue: '' @ t),
        SectionHeader ''Reference Photos:''] @ pre) @ cellDrawn e (photos (asm_report a) ! i) x y
        @ [cellLabel (i + 1) x y] @ post"
    using assms by (simp add: page1_def Let_def draw_doc draw_report)
  then show ?thesis by blast
qed

lemma page2_report: "asm_report (page2 e t a) = asm_report a"
  by (simp add: page2_def Let_def breakdown_report draw_report)

lemma page2_extends: "\<exists>post. asm_doc (page2 e t a) = asm_doc a @ post"
proof -
  let ?a1 = "draw [AddPage, addPageNumber 2, Title t, SectionHeader ''Reference Photo breakdown:''] a"
  obtain post where "asm_doc (forEach (breakdownStep e t (photoSections (asm_report ?a1))) (photos (asm_report ?a1)) 0 ?a1)
       = asm_doc ?a1 @ post"
    using breakdown_extends by blast
  then have "asm_doc (page2 e t a) = asm_doc a @ ([AddPage, addPageNumber 2, Title t,
               SectionHeader ''Reference Photo breakdown:''] @ post)"
    by (simp add: page2_def Let_def draw_doc)
  then show ?thesis by blast
qed

lemma page2_entry_at:
  assumes "i < length (photos (asm_report a))" and "filter isPhotoHeading (asm_doc a) = []"
  shows "\<exists>pre post. asm_doc (page2 e t a)
             = pre @ breakdownEntry (photoSections (asm_report a)) (photos (asm_report a) ! i) i @ post
           \<and> length (filter isPhotoHeading pre) = i"
proof -
  let ?a1 = "draw [AddPage, addPageNumber 2, Title t, SectionHeader ''Reference Photo breakdown:''] a"
  have r: "asm_report ?a1 = asm_report a" by (simp add: draw_report)
  from breakdown_entry_at[OF assms(1), of e t "photoSections (asm_report a)" 0 ?a1]
  obtain pre post where pp: "asm_doc (forEach (breakdownStep e t (photoSections (asm_report a))) (photos (asm_report a)) 0 ?a1)
       = asm_doc ?a1 @ pre @ breakdownEntry (photoSections (asm_report a)) (photos (asm_report a) ! i) (0 + i) @ post"
     "length (filter isPhotoHeading pre) = i"
    by blast
  have "asm_doc (page2 e t a) = (asm_doc a @ [AddPage, addPageNumber 2, Title t,
               SectionHeader ''Reference Photo breakdown:''] @ pre)
            @ breakdownEntry (photoSections (asm_report a)) (photos (asm_report a) ! i) i @ post"
    using pp(1) by (simp add: page2_def Let_def r draw_doc)
  moreover have "length (filter isPhotoHeading (asm_doc a @ [AddPage, addPageNumber 2, Title t,
               SectionHeader ''Reference Photo breakdown:''] @ pre)) = i"
    using pp(2) assms(2) by (simp add: addPageNumber_def)
  ultimately show ?thesis by blast
qed

lemma page3_report: "asm_report (page3 e t a) = asm_report a"
  by (simp add: page3_def Let_def service_report photoGrid_report draw_report)

lemma page3_extends:
  "\<exists>post. asm_doc (page3 e t a) = asm_doc a @ post \<and> last (asm_doc (page3 e t a)) = EndDoc"
proof -
  let ?a1 = "draw [AddPage, addPageNumber 3, Title t] a"
  let ?a2 = "(if length (photos (asm_report ?a1)) > 9
                then draw [MoveDown]
                       (photoGrid e 9 (drop 9 (photos (asm_report ?a1)))
                          (draw [SectionHeader ''Additional Photos:''] ?a1))
                else ?a1)"
  let ?a3 = "draw [SectionHeader ''Recommended Services:''] ?a2"
  let ?a4 = "forEach serviceLine (splitStr (recommendedServices (asm_report ?a3)) [CHR 0x0A]) 0 ?a3"
  obtain p2 where p2: "asm_doc ?a2 = asm_doc ?a1 @ p2"
  proof (cases "length (photos (asm_report ?a1)) > 9")
    case True
    obtain g where "asm_doc (photoGrid e 9 (drop 9 (photos (asm_report ?a1)))
                          (draw [SectionHeader ''Additional Photos:''] ?a1))
        = asm_doc (draw [SectionHeader ''Additional Photos:''] ?a1) @ g"
      using photoGrid_extends by blast
    then have "asm_doc ?a2 = asm_doc ?a1 @ ([SectionHeader ''Additional Photos:''] @ g @ [MoveDown])"
      using True by (simp add: draw_doc)
    then show ?thesis using that by blast
  next
    case False
    then have "asm_doc ?a2 = asm_doc ?a1 @ []" by simp
    then show ?thesis using that by blast
  qed
  obtain p4 where p4: "asm_doc ?a4 = asm_doc ?a3 @ p4"
    using service_extends by blast
  have "asm_doc (page3 e t a) = asm_doc ?a4
          @ [MoveDown, SectionHeader ''Additional Notes:'', additionalNotes (asm_report ?a4), EndDoc]"
    unfolding page3_def Let_def by (simp add: draw_doc)
  then have "asm_doc (page3 e t a) = asm_doc a @ ([AddPage, addPageNumber 3, Title t] @ p2
          @ [SectionHeader ''Recommended Services:''] @ p4
          @ [MoveDown, SectionHeader ''Additional Notes:'', additionalNotes (asm_report ?a4), EndDoc])
       \<and> last (asm_doc (page3 e t a)) = EndDoc"
    using p2 p4 by (simp add: draw_doc)
  then show ?thesis by blast
qed

lemma page3_cell_at:
  assumes "i < length (photos (asm_report a))" and "9 \<le> i"
  shows "\<exists>pre post x y. asm_doc (page3 e t a)
            = asm_doc a @ pre @ cellDrawn e (photos (asm_report a) ! i) x y @ [cellLabel (i + 1) x y] @ post"
proof -
  let ?r = "asm_report a"
  let ?a1 = "draw [AddPage, addPageNumber 3, Title t] a"
  let ?ag = "photoGrid e 9 (drop 9 (photos ?r)) (draw [SectionHeader ''Additional Photos:''] ?a1)"
  let ?a3 = "draw [SectionHeader ''Recommended Services:''] (draw [MoveDown] ?ag)"
  let ?a4 = "forEach serviceLine (splitStr (recommendedServices (asm_report ?a3)) [CHR 0x0A]) 0 ?a3"
  have gt: "length (photos ?r) > 9" using assms by simp
  have "i - 9 < length (drop 9 (photos ?r))" using assms by simp
  from photoGrid_cell_at[OF this, of e 9 "draw [SectionHeader ''Additional Photos:''] ?a1"]
  obtain pre post x y where g: "asm_doc ?ag
     = asm_doc (draw [SectionHeader ''Additional Photos:''] ?a1) @ pre @ cellDrawn e (drop 9 (photos ?r) ! (i - 9)) x y
         @ [cellLabel (9 + (i - 9) + 1) x y] @ post"
    by blast
  have nth: "drop 9 (photos ?r) ! (i - 9) = photos ?r ! i" using assms by simp
  have lbl: "9 + (i - 9) + 1 = i + 1" using assms by simp
  obtain p4 where p4: "asm_doc ?a4 = asm_doc ?a3 @ p4"
    using service_extends by blast
  have "asm_doc (page3 e t a) = asm_doc ?a4
          @ [MoveDown, SectionHeader ''Additional Notes:'', additionalNotes (asm_report ?a4), EndDoc]"
    unfolding page3_def Let_def using gt by (simp add: draw_doc draw_report)
  then have "asm_doc (page3 e t a) = asm_doc a @ ([AddPage, addPageNumber 3, Title t,
             SectionHeader ''Additional Photos:''] @ pre) @ cellDrawn e (photos ?r ! i) x y
         @ [cellLabel (i + 1) x y] @ (post @ [MoveDown] @ [SectionHeader ''Recommended Services:''] @ p4
          @ [MoveDown, SectionHeader ''Additional Notes:'', additionalNotes (asm_report ?a4), EndDoc])"
    using g nth lbl p4 by (simp add: draw_doc)
  then show ?thesis by blast
qed

lemma assemble_report: "asm_report (assemble e r) = r"
  by (simp add: assemble_def Let_def page1_report page2_report page3_report)

lemma docOps_cell_at:
  assumes "i < length (photos r)"
  shows "\<exists>pre post x y. docOps e r = pre @ cellDrawn e (photos r ! i) x y @ [cellLabel (i + 1) x y] @ post"
proof -
  let ?a0 = "\<lparr>asm_report = r, asm_doc = []\<rparr>"
  let ?t = "reportTitle r"
  let ?a1 = "page1 e ?t ?a0"
  let ?a2 = "page2 e ?t ?a1"
  have d: "docOps e r = asm_doc (page3 e ?t ?a2)" by (simp add: docOps_def assemble_def Let_def)
  have r2: "asm_report ?a2 = r" by (simp add: page1_report page2_report)
  show ?thesis
  proof (cases "i < 9")
    case True
    have "i < length (photos (asm_report ?a0))" using assms by simp
    from page1_cell_at[OF this True, of e ?t]
    obtain pre post x y where 1: "asm_doc ?a1 = pre @ cellDrawn e (photos r ! i) x y @ [cellLabel (i + 1) x y] @ post"
      by auto
    obtain p2 where 2: "asm_doc ?a2 = asm_doc ?a1 @ p2" using page2_extends by blast
    obtain p3 where 3: "asm_doc (page3 e ?t ?a2) = asm_doc ?a2 @ p3" using page3_extends by blast
    have "docOps e r = pre @ cellDrawn e (photos r ! i) x y @ [cellLabel (i + 1) x y] @ (post @ p2 @ p3)"
      using 1 2 3 d by simp
    then show ?thesis by blast
  next
    case False
    then have 9: "9 \<le> i" by simp
    have "i < length (photos (asm_report ?a2))" using assms r2 by simp
    from page3_cell_at[OF this 9, of e ?t]
    obtain pre post x y where "asm_doc (page3 e ?t ?a2)
        = (asm_doc ?a2 @ pre) @ cellDrawn e (photos r ! i) x y @ [cellLabel (i + 1) x y] @ post"
      using r2 by auto
    then show ?thesis using d by metis
  qed
qed

lemma docOps_entry_at:
  assumes "i < length (photos r)"
  shows "\<exists>pre post. docOps e r = pre @ breakdownEntry (photoSections r) (photos r ! i) i @ post
           \<and> length (filter isPhotoHeading pre) = i"
proof -
  let ?a0 = "\<lparr>asm_report = r, asm_doc = []\<rparr>"
  let ?t = "reportTitle r"
  let ?a1 = "page1 e ?t ?a0"
  let ?a2 = "page2 e ?t ?a1"
  have d: "docOps e r = asm_doc (page3 e ?t ?a2)" by (simp add: docOps_def assemble_def Let_def)
  have r1: "asm_report ?a1 = r" by (simp add: page1_report)
  have nh: "filter isPhotoHeading (asm_doc ?a1) = []"
    using page1_extends[of e ?t ?a0] by (auto simp: addPageNumber_def)
  have "i < length (photos (asm_report ?a1))" using assms r1 by simp
  from page2_entry_at[OF this nh, of e ?t]
  obtain pre post where 2: "asm_doc ?a2 = pre @ breakdownEntry (photoSections r) (photos r ! i) i @ post"
     "length (filter isPhotoHeading pre) = i" using r1 by auto
  obtain p3 where 3: "asm_doc (page3 e ?t ?a2) = asm_doc ?a2 @ p3" using page3_extends by blast
  have "docOps e r = pre @ breakdownEntry (photoSections r) (photos r ! i) i @ (post @ p3)"
    using 2 3 d by simp
  then show ?thesis using 2(2) by blast
qed

lemma docOps_last: "last (docOps e r) = EndDoc"
  using page3_extends by (simp add: docOps_def assemble_def Let_def)

lemma docOps_title: "\<exists>tail. docOps e r = [AddPage, addPageNumber 1, Title (reportTitle r)] @ tail"
proof -
  let ?a0 = "\<lparr>asm_report = r, asm_doc = []\<rparr>"
  let ?t = "reportTitle r"
  obtain p1 where 1: "asm_doc (page1 e ?t ?a0) = [AddPage, addPageNumber 1, Title ?t] @ p1"
    using page1_extends[of e ?t ?a0] by auto
  obtain p2 where 2: "asm_doc (page2 e ?t (page1 e ?t ?a0)) = asm_doc (page1 e ?t ?a0) @ p2"
    using page2_extends by blast
  obtain p3 where 3: "asm_doc (page3 e ?t (page2 e ?t (page1 e ?t ?a0))) = asm_doc (page2 e ?t (page1 e ?t ?a0)) @ p3"
    using page3_extends by blast
  have "docOps e r = [AddPage, addPageNumber 1, Title ?t] @ (p1 @ p2 @ p3)"
    using 1 2 3 by (simp add: docOps_def assemble_def Let_def)
  then show ?thesis by blast
qed

lemma breakdownEntry_sectionAt:
  "breakdownEntry secs p i =
     [PhotoHeading (''Photo '' @ string_of_nat (i + 1) @ '':'')]
       @ (if sectionAt secs i \<noteq> [] then sectionFields (sectionAt secs i)
          else [DescriptionLine (if description p \<noteq> [] then description p else '' No description provided.'')])
       @ [MoveDown]"
  by (simp add: breakdownEntry_def sectionAt_def at_def Let_def)

text \<open>
  Claim C7.  When the output sink works, assembly returns the whole document, which ends
  with \<^verbatim>\<open>doc.end()\<close>, whatever the state of the image files, and leaves the report as it
  was.  The grid cell of the photo at
  index \<open>i\<close>, the one labelled with \<open>i + 1\<close>, holds the border and the note
  \<^verbatim>\<open>Photo not available\<close> when the file does not exist, the border and the different note
  \<^verbatim>\<open>Error loading photo\<close> when the file exists and drawing it throws, and the image with its
  border otherwise.
\<close>

theorem missing_file_resilience:
  assumes "i < length (photos r)" and "sinkOk e out"
  shows "generateFormattedPDF e r out = (Inr (docOps e r), r) \<and> last (docOps e r) = EndDoc
       \<and> (\<not> existsSync e (path (photos r ! i)) \<longrightarrow>
            (\<exists>pre post x y. docOps e r = pre @ [Rect x y, CellNote ''Photo not available'' (x + 10) (y + 60),
                                  CellLabel (''Photo '' @ string_of_nat (i + 1)) x (y + 125)] @ post))
       \<and> (existsSync e (path (photos r ! i)) \<and> \<not> imageLoads e (path (photos r ! i)) \<longrightarrow>
            (\<exists>pre post x y. docOps e r = pre @ [Rect x y, CellNote ''Error loading photo'' (x + 10) (y + 60),
                                  CellLabel (''Photo '' @ string_of_nat (i + 1)) x (y + 125)] @ post))
       \<and> (existsSync e (path (photos r ! i)) \<and> imageLoads e (path (photos r ! i)) \<longrightarrow>
            (\<exists>pre post x y. docOps e r = pre @ [Image (path (photos r ! i)) x y, Rect x y,
                                  CellLabel (''Photo '' @ string_of_nat (i + 1)) x (y + 125)] @ post))"
proof -
  from docOps_cell_at[OF assms(1), of e]
  obtain pre post x y where d: "docOps e r = pre @ cellDrawn e (photos r ! i) x y @ [cellLabel (i + 1) x y] @ post"
    by blast
  have l: "cellLabel (i + 1) x y = CellLabel (''Photo '' @ string_of_nat (i + 1)) x (y + 125)"
    by (simp add: cellLabel_def photoSize_def)
  have 1: "generateFormattedPDF e r out = (Inr (docOps e r), r)"
    using assms(2) by (simp add: generateFormattedPDF_def sinkOk_def docOps_def Let_def assemble_report)
  have 2: "\<not> existsSync e (path (photos r ! i)) \<longrightarrow>
            (\<exists>pre post x y. docOps e r = pre @ [Rect x y, CellNote ''Photo not available'' (x + 10) (y + 60),
                                  CellLabel (''Photo '' @ string_of_nat (i + 1)) x (y + 125)] @ post)"
  proof
    assume "\<not> existsSync e (path (photos r ! i))"
    then have "docOps e r = pre @ [Rect x y, CellNote ''Photo not available'' (x + 10) (y + 60),
                                  CellLabel (''Photo '' @ string_of_nat (i + 1)) x (y + 125)] @ post"
      using d l by (simp add: cellDrawn_def photoSize_def)
    then show "\<exists>pre post x y. docOps e r = pre @ [Rect x y, CellNote ''Photo not available'' (x + 10) (y + 60),
                                  CellLabel (''Photo '' @ string_of_nat (i + 1)) x (y + 125)] @ post"
      by blast
  qed
  have 3: "existsSync e (path (photos r ! i)) \<and> \<not> imageLoads e (path (photos r ! i)) \<longrightarrow>
            (\<exists>pre post x y. docOps e r = pre @ [Rect x y, CellNote ''Error loading photo'' (x + 10) (y + 60),
                                  CellLabel (''Photo '' @ string_of_nat (i + 1)) x (y + 125)] @ post)"
  proof
    assume "existsSync e (path (photos r ! i)) \<and> \<not> imageLoads e (path (photos r ! i))"
    then have "docOps e r = pre @ [Rect x y, CellNote ''Error loading photo'' (x + 10) (y + 60),
                                  CellLabel (''Photo '' @ string_of_nat (i + 1)) x (y + 125)] @ post"
      using d l by (simp add: cellDrawn_def photoSize_def)
    then show "\<exists>pre post x y. docOps e r = pre @ [Rect x y, CellNote ''Error loading photo'' (x + 10) (y + 60),
                                  CellLabel (''Photo '' @ string_of_nat (i + 1)) x (y + 125)] @ post"
      by blast
  qed
  have 4: "existsSync e (path (photos r ! i)) \<and> imageLoads e (path (photos r ! i)) \<longrightarrow>
            (\<exists>pre post x y. docOps e r = pre @ [Image (path (photos r ! i)) x y, Rect x y,
                                  CellLabel (''Photo '' @ string_of_nat (i + 1)) x (y + 125)] @ post)"
  proof
    assume "existsSync e (path (photos r ! i)) \<and> imageLoads e (path (photos r ! i))"
    then have "docOps e r = pre @ [Image (path (photos r ! i)) x y, Rect x y,
                                  CellLabel (''Photo '' @ string_of_nat (i + 1)) x (y + 125)] @ post"
      using d l by (simp add: cellDrawn_def)
    then show "\<exists>pre post x y. docOps e r = pre @ [Image (path (photos r ! i)) x y, Rect x y,
                                  CellLabel (''Photo '' @ string_of_nat (i + 1)) x (y + 125)] @ post"
      by blast
  qed
  from 1 2 3 4 docOps_last[of e r] show ?thesis by blast
qed

lemma string_of_nat_one: "string_of_nat (Suc 0) = ''1''"
  by code_simp

theorem missing_file_resilience_witness:
  "generateFormattedPDF env0 report1 ''report-1.pdf'' = (Inr (docOps env0 report1), report1)
   \<and> last (docOps env0 report1) = EndDoc
   \<and> (\<exists>pre post x y. docOps env0 report1 = pre @ [Rect x y, CellNote ''Photo not available'' (x + 10) (y + 60),
                                  CellLabel ''Photo 1'' x (y + 125)] @ post)
   \<and> (\<exists>pre post x y. docOps envUnreadable report1 = pre @ [Rect x y, CellNote ''Error loading photo'' (x + 10) (y + 60),
                                  CellLabel ''Photo 1'' x (y + 125)] @ post)"
proof -
  have i: "0 < length (photos report1)" by (simp add: report1_def)
  have s0: "sinkOk env0 ''report-1.pdf''" by (simp add: sinkOk_def env0_def)
  have s1: "sinkOk envUnreadable ''report-1.pdf''" by (simp add: sinkOk_def envUnreadable_def env0_def)
  have m: "\<not> existsSync env0 (path (photos report1 ! 0))" by (simp add: env0_def)
  have u: "existsSync envUnreadable (path (photos report1 ! 0)) \<and> \<not> imageLoads envUnreadable (path (photos report1 ! 0))"
    by (simp add: envUnreadable_def env0_def)
  from missing_file_resilience[OF i s0] m missing_file_resilience[OF i s1] u
  show ?thesis by (simp add: string_of_nat_one)
qed

text \<open>
  Claim C1.  For every report, every narrative and every index \<open>i\<close> of the photo list, the
  document contains the breakdown entry of photo \<open>i\<close>: the heading with the number \<open>i + 1\<close>,
  then the fields of the section at index \<open>i\<close> of the section list (the description of
  photo \<open>i\<close> when the list has no section there), and exactly \<open>i\<close> entry headings come
  before it.  The grid cell drawn for photo \<open>i\<close> is labelled with \<open>i + 1\<close>.  When the parser
  found sections, the section list is the parsed one.  The number written inside a section
  plays no part.
\<close>

theorem breakdown_aligned_by_position:
  assumes "i < length (photos r)"
  shows "(\<exists>pre post. docOps e r = pre @ [PhotoHeading (''Photo '' @ string_of_nat (i + 1) @ '':'')]
              @ (if sectionAt (photoSections r) i \<noteq> [] then sectionFields (sectionAt (photoSections r) i)
                 else [DescriptionLine (if description (photos r ! i) \<noteq> [] then description (photos r ! i)
                                        else '' No description provided.'')])
              @ [MoveDown] @ post
            \<and> length (filter isPhotoHeading pre) = i)
       \<and> (\<exists>pre post x y. docOps e r = pre @ cellDrawn e (photos r ! i) x y
              @ [CellLabel (''Photo '' @ string_of_nat (i + 1)) x (y + 125)] @ post)
       \<and> (parsedSections r \<noteq> [] \<longrightarrow> sectionAt (photoSections r) i = sectionAt (parsedSections r) i)"
proof -
  from docOps_entry_at[OF assms, of e]
  have 1: "\<exists>pre post. docOps e r = pre @ [PhotoHeading (''Photo '' @ string_of_nat (i + 1) @ '':'')]
              @ (if sectionAt (photoSections r) i \<noteq> [] then sectionFields (sectionAt (photoSections r) i)
                 else [DescriptionLine (if description (photos r ! i) \<noteq> [] then description (photos r ! i)
                                        else '' No description provided.'')])
              @ [MoveDown] @ post
            \<and> length (filter isPhotoHeading pre) = i"
    by (simp only: breakdownEntry_sectionAt append_assoc)
  have l: "\<And>x y. cellLabel (i + 1) x y = CellLabel (''Photo '' @ string_of_nat (i + 1)) x (y + 125)"
    by (simp add: cellLabel_def photoSize_def)
  from docOps_cell_at[OF assms, of e]
  have 2: "\<exists>pre post x y. docOps e r = pre @ cellDrawn e (photos r ! i) x y
              @ [CellLabel (''Photo '' @ string_of_nat (i + 1)) x (y + 125)] @ post"
    by (simp only: l)
  have 3: "parsedSections r \<noteq> [] \<longrightarrow> sectionAt (photoSections r) i = sectionAt (parsedSections r) i"
    by (simp add: photoSections_def)
  from 1 2 3 show ?thesis by blast
qed

lemma mislabelled_first_section: "sectionAt (photoSections reportMislabelled) 0 = ''Photo 2: Problem Description: Cracked tile.''"
  by code_simp

lemma mislabelled_first_fields: "sectionFields ''Photo 2: Problem Description: Cracked tile.'' = [FieldLine ''Problem Description:'' ''Cracked tile.'']"
  by code_simp

theorem breakdown_aligned_by_position_witness:
  "(\<exists>pre post. docOps env0 reportMislabelled
       = pre @ [PhotoHeading ''Photo 1:'', FieldLine ''Problem Description:'' ''Cracked tile.'', MoveDown] @ post
      \<and> length (filter isPhotoHeading pre) = 0)
   \<and> (\<exists>pre post x y. docOps env0 reportMislabelled
       = pre @ [Rect x y, CellNote ''Photo not available'' (x + 10) (y + 60), CellLabel ''Photo 1'' x (y + 125)] @ post)"
proof -
  have i: "0 < length (photos reportMislabelled)" by (simp add: reportMislabelled_def)
  have c: "cellDrawn env0 (photos reportMislabelled ! 0) = (\<lambda>x y. [Rect x y, CellNote ''Photo not available'' (x + 10) (y + 60)])"
    by (simp add: cellDrawn_def env0_def photoSize_def fun_eq_iff)
  from breakdown_aligned_by_position[OF i, of env0]
  show ?thesis by (simp add: string_of_nat_one mislabelled_first_section mislabelled_first_fields c)
qed

section \<open>The store under the endpoints\<close>


text \<open>
  Claim C6.  When the analyze handler reaches the generation call for the report it found
  (the report has no narrative yet, or \<^verbatim>\<open>force\<close> is set) and the call throws, the answer is
  status 500 carrying the error and the store is exactly as before; when the call returns,
  the store differs from before only in the \<^verbatim>\<open>aiReport\<close> field of that report, now the
  generated text.
\<close>

theorem analyzeReport_atomic:
  assumes "findReport reports i 0 = Some k" and "force \<or> \<not> truthy (aiReport (reports ! k))"
  shows "(\<forall>msg. generateReportContent e (map describePhoto (photos (reports ! k))) = Inl msg
            \<longrightarrow> analyzeReport e i force reports
                  = (Response 500 (JErrorDetails ''Failed to analyze report'' msg), reports))
       \<and> (\<forall>ai. generateReportContent e (map describePhoto (photos (reports ! k))) = Inr ai
            \<longrightarrow> analyzeReport e i force reports
                  = (Response 200 (JAiReport (Some ai)),
                     reports[k := (reports ! k)\<lparr>aiReport := Some ai\<rparr>]))"
  using assms by (auto simp: analyzeReport_def Let_def)

theorem analyzeReport_atomic_witness:
  "analyzeReport env0 ''1'' False [report1]
     = (Response 500 (JErrorDetails ''Failed to analyze report''
                        ''Failed to generate report content. Please try again.''), [report1])
   \<and> analyzeReport envGen ''1'' False [report1]
     = (Response 200 (JAiReport (Some ''Roof and Kitchen Issues'')),
        [report1\<lparr>aiReport := Some ''Roof and Kitchen Issues''\<rparr>])"
proof -
  have f: "findReport [report1] ''1'' 0 = Some 0" by (simp add: report1_def)
  have t: "False \<or> \<not> truthy (aiReport ([report1] ! 0))" by (simp add: report1_def)
  have g0: "generateReportContent env0 (map describePhoto (photos ([report1] ! 0)))
              = Inl ''Failed to generate report content. Please try again.''"
    by (simp add: generateReportContent_def env0_def)
  have g1: "generateReportContent envGen (map describePhoto (photos ([report1] ! 0)))
              = Inr ''Roof and Kitchen Issues''"
    by (simp add: generateReportContent_def envGen_def env0_def stripAsterisks_def)
  from analyzeReport_atomic[OF f t, of env0] g0 analyzeReport_atomic[OF f t, of envGen] g1
  show ?thesis by simp
qed


lemma generateFormattedPDF_report: "snd (generateFormattedPDF e r out) = r"
  by (simp add: generateFormattedPDF_def Let_def assemble_report)

lemma getPdf_store: "snd (getPdf e i reports) = reports"
proof (cases "findReport reports i 0")
  case None
  then show ?thesis by (simp add: getPdf_def)
next
  case (Some k)
  obtain res rep where g: "generateFormattedPDF e (reports ! k) (pdfPath (reports ! k)) = (res, rep)"
    by (cases "generateFormattedPDF e (reports ! k) (pdfPath (reports ! k))")
  then have "rep = reports ! k" using generateFormattedPDF_report[of e "reports ! k" "pdfPath (reports ! k)"] by simp
  then show ?thesis using Some g by (cases res) (simp_all add: getPdf_def)
qed

lemma emailReport_store: "snd (emailReport e i a reports) = reports"
proof (cases "findReport reports i 0")
  case None
  then show ?thesis by (simp add: emailReport_def)
next
  case (Some k)
  obtain res rep where g: "generateFormattedPDF e (reports ! k) (pdfPath (reports ! k)) = (res, rep)"
    by (cases "generateFormattedPDF e (reports ! k) (pdfPath (reports ! k))")
  then have "rep = reports ! k" using generateFormattedPDF_report[of e "reports ! k" "pdfPath (reports ! k)"] by simp
  then show ?thesis using Some g by (cases res) (simp_all add: emailReport_def split: option.splits)
qed






text \<open>
  Claim C8.  The assembler works on the report object it is handed, and the handlers of the
  two endpoints that run it hand it the object held in the \<^verbatim>\<open>reports\<close> array.  Through the
  three pages and their loops no statement assigns to the report: the object comes out of
  the assembler as it went in, field for field, and so does the store out of the two
  endpoints.  A second run, on the report as the first run left it and with the
  collaborators answering as before, gives the same document, call for call, and so the
  same pages with the same content.
\<close>

theorem assembly_is_pure_read:
  "asm_report (assemble e r) = r
   \<and> generateFormattedPDF e r out = (fst (generateFormattedPDF e r out), r)
   \<and> docOps e (asm_report (assemble e r)) = docOps e r
   \<and> generateFormattedPDF e (snd (generateFormattedPDF e r out)) out = generateFormattedPDF e r out
   \<and> snd (handle e (GetPdf i) reports) = reports
   \<and> handle e (GetPdf i) (snd (handle e (GetPdf i) reports)) = handle e (GetPdf i) reports
   \<and> snd (handle e (Email i a) reports) = reports
   \<and> handle e (Email i a) (snd (handle e (Email i a) reports)) = handle e (Email i a) reports"
proof -
  have 1: "asm_report (assemble e r) = r" by (rule assemble_report)
  have 2: "generateFormattedPDF e r out = (fst (generateFormattedPDF e r out), r)"
    using generateFormattedPDF_report[of e r out] by (metis prod.collapse)
  have 3: "docOps e (asm_report (assemble e r)) = docOps e r" by (simp add: assemble_report)
  have 4: "generateFormattedPDF e (snd (generateFormattedPDF e r out)) out = generateFormattedPDF e r out"
    by (simp add: generateFormattedPDF_report)
  have 5: "snd (handle e (GetPdf i) reports) = reports" by (simp add: getPdf_store)
  have 6: "handle e (GetPdf i) (snd (handle e (GetPdf i) reports)) = handle e (GetPdf i) reports"
    by (simp add: getPdf_store)
  have 7: "snd (handle e (Email i a) reports) = reports" by (simp add: emailReport_store)
  have 8: "handle e (Email i a) (snd (handle e (Email i a) reports)) = handle e (Email i a) reports"
    by (simp add: emailReport_store)
  from 1 2 3 4 5 6 7 8 show ?thesis by blast
qed

theorem assembly_is_pure_read_witness:
  "asm_report (assemble env0 reportMislabelled) = reportMislabelled
   \<and> generateFormattedPDF env0 reportMislabelled ''report-1.pdf''
       = (fst (generateFormattedPDF env0 reportMislabelled ''report-1.pdf''), reportMislabelled)
   \<and> docOps env0 (asm_report (assemble env0 reportMislabelled)) = docOps env0 reportMislabelled
   \<and> generateFormattedPDF env0 (snd (generateFormattedPDF env0 reportMislabelled ''report-1.pdf'')) ''report-1.pdf''
       = generateFormattedPDF env0 reportMislabelled ''report-1.pdf''
   \<and> snd (handle env0 (GetPdf ''1'') [report1]) = [report1]
   \<and> handle env0 (GetPdf ''1'') (snd (handle env0 (GetPdf ''1'') [report1]))
       = handle env0 (GetPdf ''1'') [report1]
   \<and> snd (handle env0 (Email ''1'' None) [report1]) = [report1]
   \<and> handle env0 (Email ''1'' None) (snd (handle env0 (Email ''1'' None) [report1]))
       = handle env0 (Email ''1'' None) [report1]"
  by (rule assembly_is_pure_read)

section \<open>Field extraction, characterised\<close>

lemma startsWith_prefix: "startsWith s p = prefix p s"
  by (induction s p rule: startsWith.induct) auto

lemma list_ex_stops: "list_ex (startsWith t) stops = (\<exists>l\<in>set stops. prefix l t)"
  by (simp add: list_ex_iff startsWith_prefix)

lemma lazyRest_spec:
  "\<exists>post. cs = lazyRest stops cs @ post
      \<and> (post = [] \<or> (\<exists>l\<in>set stops. prefix l post))
      \<and> (\<forall>k<length (lazyRest stops cs). \<not> (\<exists>l\<in>set stops. prefix l (drop k cs)))"
proof (induction cs)
  case Nil
  then show ?case by simp
next
  case (Cons c cs)
  show ?case
  proof (cases "\<exists>l\<in>set stops. prefix l (c # cs)")
    case True
    then have "lazyRest stops (c # cs) = []" by (simp add: list_ex_stops)
    then show ?thesis using True by simp
  next
    case False
    then have lr: "lazyRest stops (c # cs) = c # lazyRest stops cs" by (simp add: list_ex_stops)
    obtain post where post: "cs = lazyRest stops cs @ post" "post = [] \<or> (\<exists>l\<in>set stops. prefix l post)"
       "\<forall>k<length (lazyRest stops cs). \<not> (\<exists>l\<in>set stops. prefix l (drop k cs))"
      using Cons.IH by blast
    have "\<forall>k<length (lazyRest stops (c # cs)). \<not> (\<exists>l\<in>set stops. prefix l (drop k (c # cs)))"
    proof (intro allI impI)
      fix k assume k: "k < length (lazyRest stops (c # cs))"
      show "\<not> (\<exists>l\<in>set stops. prefix l (drop k (c # cs)))"
      proof (cases k)
        case 0 then show ?thesis using False by simp
      next
        case (Suc j)
        then have "j < length (lazyRest stops cs)" using k lr by simp
        then show ?thesis using post(3) Suc by simp
      qed
    qed
    moreover have "c # cs = lazyRest stops (c # cs) @ post" using lr post(1) by simp
    ultimately show ?thesis using post(2) by blast
  qed
qed

lemma captureAfter_Some: "captureAfter stops rest = Some v \<longleftrightarrow> (\<exists>c cs. rest = c # cs \<and> v = c # lazyRest stops cs)"
  by (cases rest) auto

lemma captureAfter_None: "captureAfter stops rest = None \<longleftrightarrow> rest = []"
  by (cases rest) auto

lemma matchField_None:
  "matchField L stops s = None \<longleftrightarrow> \<not> (\<exists>pre c post. s = pre @ L @ c # post)"
proof (induction s)
  case Nil
  then show ?case by simp
next
  case (Cons c0 cs)
  have split: "(\<exists>pre c post. c0 # cs = pre @ L @ c # post)
      \<longleftrightarrow> (\<exists>c post. c0 # cs = L @ c # post) \<or> (\<exists>pre c post. cs = pre @ L @ c # post)"
  proof
    assume "\<exists>pre c post. c0 # cs = pre @ L @ c # post"
    then obtain pre c post where e: "c0 # cs = pre @ L @ c # post" by blast
    show "(\<exists>c post. c0 # cs = L @ c # post) \<or> (\<exists>pre c post. cs = pre @ L @ c # post)"
    proof (cases pre)
      case Nil then show ?thesis using e by auto
    next
      case (Cons a pre')
      then have "cs = pre' @ L @ c # post" using e by simp
      then show ?thesis by blast
    qed
  next
    assume "(\<exists>c post. c0 # cs = L @ c # post) \<or> (\<exists>pre c post. cs = pre @ L @ c # post)"
    then show "\<exists>pre c post. c0 # cs = pre @ L @ c # post"
    proof
      assume "\<exists>c post. c0 # cs = L @ c # post"
      then obtain c post where "c0 # cs = [] @ L @ c # post" by auto
      then show ?thesis by blast
    next
      assume "\<exists>pre c post. cs = pre @ L @ c # post"
      then obtain pre c post where "c0 # cs = (c0 # pre) @ L @ c # post" by auto
      then show ?thesis by blast
    qed
  qed
  show ?case
  proof (cases "prefix L (c0 # cs)")
    case False
    then have "\<not> (\<exists>c post. c0 # cs = L @ c # post)" by (auto simp: prefix_def)
    then show ?thesis using False Cons.IH split by (simp add: startsWith_prefix)
  next
    case True
    then obtain rest where rest: "c0 # cs = L @ rest" by (auto simp: prefix_def)
    then have dr: "drop (length L) (c0 # cs) = rest" by (metis append_eq_conv_conj)
    show ?thesis
    proof (cases rest)
      case Nil
      then have "length cs < length L" using rest by (metis append_Nil2 length_Cons lessI)
      then have "\<not> (\<exists>pre c post. cs = pre @ L @ c # post)" by auto
      moreover have "\<not> (\<exists>c post. c0 # cs = L @ c # post)" using rest Nil by auto
      moreover have "matchField L stops (c0 # cs) = matchField L stops cs"
        using True dr Nil by (simp add: startsWith_prefix del: drop_Suc_Cons)
      ultimately show ?thesis using Cons.IH split by simp
    next
      case (Cons c post)
      then have "matchField L stops (c0 # cs) \<noteq> None"
        using True dr by (simp add: startsWith_prefix del: drop_Suc_Cons)
      moreover have "\<exists>c post. c0 # cs = L @ c # post" using rest Cons by blast
      ultimately show ?thesis using split by blast
    qed
  qed
qed

lemma matchField_Some:
  "matchField L stops s = Some v \<Longrightarrow>
     \<exists>pre rest. s = pre @ L @ rest \<and> captureAfter stops rest = Some v
        \<and> (\<forall>pre' post'. s = pre' @ L @ post' \<longrightarrow> length pre \<le> length pre')"
proof (induction s)
  case Nil
  then show ?case by simp
next
  case (Cons c0 cs)
  show ?case
  proof (cases "prefix L (c0 # cs)")
    case False
    then have m: "matchField L stops cs = Some v" using Cons.prems by (simp add: startsWith_prefix)
    from Cons.IH[OF m] obtain pre rest where pr: "cs = pre @ L @ rest" "captureAfter stops rest = Some v"
       "\<forall>pre' post'. cs = pre' @ L @ post' \<longrightarrow> length pre \<le> length pre'" by blast
    have "\<forall>pre' post'. c0 # cs = pre' @ L @ post' \<longrightarrow> length (c0 # pre) \<le> length pre'"
    proof (intro allI impI)
      fix pre' post' assume e: "c0 # cs = pre' @ L @ post'"
      show "length (c0 # pre) \<le> length pre'"
      proof (cases pre')
        case Nil then show ?thesis using e False by (auto simp: prefix_def)
      next
        case (Cons a p'')
        then have "cs = p'' @ L @ post'" using e by simp
        then show ?thesis using pr(3) Cons by simp
      qed
    qed
    moreover have "c0 # cs = (c0 # pre) @ L @ rest" using pr(1) by simp
    ultimately show ?thesis using pr(2) by blast
  next
    case True
    then obtain rest where rest: "c0 # cs = L @ rest" by (auto simp: prefix_def)
    then have dr: "drop (length L) (c0 # cs) = rest" by (metis append_eq_conv_conj)
    show ?thesis
    proof (cases rest)
      case Nil
      then have "length cs < length L" using rest by (metis append_Nil2 length_Cons lessI)
      then have "\<not> (\<exists>pre c post. cs = pre @ L @ c # post)" by auto
      then have "matchField L stops cs = None" by (simp add: matchField_None)
      moreover have "matchField L stops (c0 # cs) = matchField L stops cs"
        using True dr Nil by (simp add: startsWith_prefix del: drop_Suc_Cons)
      ultimately show ?thesis using Cons.prems by simp
    next
      case (Cons c post)
      then have "matchField L stops (c0 # cs) = captureAfter stops rest"
        using True dr by (simp add: startsWith_prefix del: drop_Suc_Cons)
      then have "captureAfter stops rest = Some v" using Cons.prems by simp
      moreover have "c0 # cs = [] @ L @ rest" using rest by simp
      ultimately show ?thesis by (metis le0 list.size(3))
    qed
  qed
qed

lemma lazyRest_indep:
  "\<not> sublist other cs \<Longrightarrow> lazyRest (filter (\<lambda>l. l \<noteq> other) stops) cs = lazyRest stops cs"
proof (induction cs)
  case Nil
  then show ?case by simp
next
  case (Cons c cs)
  have np: "\<not> prefix other (c # cs)" using Cons.prems by (meson prefix_imp_sublist)
  have ns: "\<not> sublist other cs" using Cons.prems by (meson sublist_Cons_right)
  have "(\<exists>l\<in>set (filter (\<lambda>l. l \<noteq> other) stops). prefix l (c # cs)) = (\<exists>l\<in>set stops. prefix l (c # cs))"
    using np by auto
  then show ?case using Cons.IH[OF ns] by (simp add: list_ex_stops del: set_filter)
qed

lemma matchField_indep:
  "\<not> sublist other s \<Longrightarrow> matchField L (filter (\<lambda>l. l \<noteq> other) stops) s = matchField L stops s"
proof (induction s)
  case Nil
  then show ?case by simp
next
  case (Cons c cs)
  have ns: "\<not> sublist other cs" using Cons.prems by (meson sublist_Cons_right)
  have "\<not> sublist other (drop (length L) (c # cs))"
    using Cons.prems by (meson sublist_drop sublist_order.dual_order.trans)
  then have "captureAfter (filter (\<lambda>l. l \<noteq> other) stops) (drop (length L) (c # cs))
      = captureAfter stops (drop (length L) (c # cs))"
  proof (cases "drop (length L) (c # cs)")
    case Nil
    then show ?thesis by simp
  next
    case (Cons a list)
    then have "\<not> sublist other list"
      using \<open>\<not> sublist other (drop (length L) (c # cs))\<close> by (metis sublist_Cons_right)
    then show ?thesis using Cons by (simp add: lazyRest_indep del: drop_Suc_Cons)
  qed
  then show ?case using Cons.IH[OF ns] by (simp del: drop_Suc_Cons split: option.splits)
qed

text \<open>
  Claim C5, as stated, fails: when another label follows \<^verbatim>\<open>Problem Description:\<close> directly,
  the text up to the next label is empty, but the code draws everything up to the label
  after that one; and when the label itself comes again, the code does not stop there.
\<close>

theorem field_extraction_adjacent_labels:
  "claimedField ''Problem Description:'' sectionAdjacentLabels = Some []
   \<and> fieldLine ''Problem Description:'' sectionAdjacentLabels
       = [FieldLine ''Problem Description:'' ''Recommended Solution: Replace the tile.'']
   \<and> claimedField ''Problem Description:'' sectionRepeatedLabel = Some ''Crack.''
   \<and> fieldLine ''Problem Description:'' sectionRepeatedLabel
       = [FieldLine ''Problem Description:'' ''Crack. Problem Description: Leak.'']"
  by code_simp

text \<open>
  Claim C5, amended.  For each label, extraction depends only on where the labels stand in
  the section, not on their order.  The field is absent, and nothing is drawn for it,
  exactly when no occurrence of the label has a character after it.  Otherwise the value
  starts right after the first occurrence of the label, has at least one character, and
  ends at the end of the text or where one of the other four labels starts, none of them
  starting inside the value after its first character; it is drawn with asterisks removed
  and surrounding white space stripped.  A label that does not occur in the section yields
  that field absent, and every other field is what extraction without that label among the
  delimiters yields.
\<close>

theorem field_extraction:
  "(fieldMatch label s = None \<longleftrightarrow> \<not> (\<exists>pre c post. s = pre @ label @ c # post))
   \<and> (fieldMatch label s = None \<longrightarrow> fieldLine label s = [])
   \<and> (\<forall>v. fieldMatch label s = Some v \<longrightarrow>
          fieldLine label s = [FieldLine label (trim (stripAsterisks v))]
          \<and> v \<noteq> []
          \<and> (\<exists>pre post. s = pre @ label @ v @ post
                \<and> (\<forall>pre' post'. s = pre' @ label @ post' \<longrightarrow> length pre \<le> length pre')
                \<and> (post = [] \<or> (\<exists>l\<in>set fieldLabels. l \<noteq> label \<and> prefix l post))
                \<and> (\<forall>k. 0 < k \<and> k < length v
                       \<longrightarrow> \<not> (\<exists>l\<in>set fieldLabels. l \<noteq> label \<and> prefix l (drop k (v @ post))))))
   \<and> (\<forall>other. \<not> sublist other s \<longrightarrow>
          fieldMatch other s = None
          \<and> matchField label (filter (\<lambda>l. l \<noteq> other) (filter (\<lambda>l. l \<noteq> label) fieldLabels)) s
              = fieldMatch label s)"
proof -
  let ?stops = "filter (\<lambda>l. l \<noteq> label) fieldLabels"
  have 1: "fieldMatch label s = None \<longleftrightarrow> \<not> (\<exists>pre c post. s = pre @ label @ c # post)"
    by (simp add: fieldMatch_def matchField_None)
  have 2: "fieldMatch label s = None \<longrightarrow> fieldLine label s = []"
    by (simp add: fieldLine_def)
  have 3: "\<forall>v. fieldMatch label s = Some v \<longrightarrow>
          fieldLine label s = [FieldLine label (trim (stripAsterisks v))]
          \<and> v \<noteq> []
          \<and> (\<exists>pre post. s = pre @ label @ v @ post
                \<and> (\<forall>pre' post'. s = pre' @ label @ post' \<longrightarrow> length pre \<le> length pre')
                \<and> (post = [] \<or> (\<exists>l\<in>set fieldLabels. l \<noteq> label \<and> prefix l post))
                \<and> (\<forall>k. 0 < k \<and> k < length v
                       \<longrightarrow> \<not> (\<exists>l\<in>set fieldLabels. l \<noteq> label \<and> prefix l (drop k (v @ post)))))"
  proof (intro allI impI)
    fix v assume m: "fieldMatch label s = Some v"
    then have mf: "matchField label ?stops s = Some v" by (simp add: fieldMatch_def)
    from matchField_Some[OF mf] obtain pre rest where pr: "s = pre @ label @ rest"
        "captureAfter ?stops rest = Some v"
        "\<forall>pre' post'. s = pre' @ label @ post' \<longrightarrow> length pre \<le> length pre'"
      by blast
    from pr(2) obtain c cs where cc: "rest = c # cs" "v = c # lazyRest ?stops cs"
      by (auto simp: captureAfter_Some)
    obtain post where post: "cs = lazyRest ?stops cs @ post"
        "post = [] \<or> (\<exists>l\<in>set ?stops. prefix l post)"
        "\<forall>k<length (lazyRest ?stops cs). \<not> (\<exists>l\<in>set ?stops. prefix l (drop k cs))"
      using lazyRest_spec[of cs ?stops] by blast
    have ne: "v \<noteq> []" using cc by simp
    have vp: "v @ post = c # cs" using cc(2) post(1) by simp
    have dec: "s = pre @ label @ v @ post" using pr(1) cc(1) vp by simp
    have stop: "post = [] \<or> (\<exists>l\<in>set fieldLabels. l \<noteq> label \<and> prefix l post)"
      using post(2) by auto
    have inner: "\<forall>k. 0 < k \<and> k < length v
                       \<longrightarrow> \<not> (\<exists>l\<in>set fieldLabels. l \<noteq> label \<and> prefix l (drop k (v @ post)))"
    proof (intro allI impI)
      fix k assume k: "0 < k \<and> k < length v"
      then obtain j where j: "k = Suc j" by (cases k) auto
      then have "j < length (lazyRest ?stops cs)" using k cc(2) by simp
      then have "\<not> (\<exists>l\<in>set ?stops. prefix l (drop j cs))" using post(3) by blast
      moreover have "drop k (v @ post) = drop j cs" using vp j by simp
      ultimately show "\<not> (\<exists>l\<in>set fieldLabels. l \<noteq> label \<and> prefix l (drop k (v @ post)))"
        by auto
    qed
    have line: "fieldLine label s = [FieldLine label (trim (stripAsterisks v))]"
      using m ne by (simp add: fieldLine_def)
    show "fieldLine label s = [FieldLine label (trim (stripAsterisks v))]
          \<and> v \<noteq> []
          \<and> (\<exists>pre post. s = pre @ label @ v @ post
                \<and> (\<forall>pre' post'. s = pre' @ label @ post' \<longrightarrow> length pre \<le> length pre')
                \<and> (post = [] \<or> (\<exists>l\<in>set fieldLabels. l \<noteq> label \<and> prefix l post))
                \<and> (\<forall>k. 0 < k \<and> k < length v
                       \<longrightarrow> \<not> (\<exists>l\<in>set fieldLabels. l \<noteq> label \<and> prefix l (drop k (v @ post)))))"
      using line ne dec pr(3) stop inner by blast
  qed
  have 4: "\<forall>other. \<not> sublist other s \<longrightarrow>
          fieldMatch other s = None
          \<and> matchField label (filter (\<lambda>l. l \<noteq> other) ?stops) s = fieldMatch label s"
  proof (intro allI impI)
    fix other assume ns: "\<not> sublist other s"
    have "\<not> (\<exists>pre c post. s = pre @ other @ c # post)"
      using ns by (auto simp: sublist_def)
    then have "fieldMatch other s = None" by (simp add: fieldMatch_def matchField_None)
    moreover have "matchField label (filter (\<lambda>l. l \<noteq> other) ?stops) s = fieldMatch label s"
      by (simp only: fieldMatch_def matchField_indep[OF ns])
    ultimately show "fieldMatch other s = None
          \<and> matchField label (filter (\<lambda>l. l \<noteq> other) ?stops) s = fieldMatch label s"
      by blast
  qed
  from 1 2 3 4 show ?thesis by blast
qed

lemma noPriority_absent: "\<not> sublist ''Priority Level:'' sectionNoPriority"
  by code_simp

lemma noPriority_problem: "fieldMatch ''Problem Description:'' sectionNoPriority = Some '' **Cracked** tile.''"
  by code_simp

lemma noPriority_clean: "trim (stripAsterisks '' **Cracked** tile.'') = ''Cracked tile.''"
  by code_simp

lemma noPriority_stops: "matchField ''Problem Description:''
          (filter (\<lambda>l. l \<noteq> ''Priority Level:'') (filter (\<lambda>l. l \<noteq> ''Problem Description:'') fieldLabels))
        = matchField ''Problem Description:'' [''Recommended Solution:'', ''Estimated Cost Range:'', ''Safety Concerns:'']"
  by (simp add: fieldLabels_def)

theorem field_extraction_witness:
  "fieldMatch ''Priority Level:'' sectionNoPriority = None
   \<and> fieldLine ''Problem Description:'' sectionNoPriority = [FieldLine ''Problem Description:'' ''Cracked tile.'']
   \<and> matchField ''Problem Description:'' [''Recommended Solution:'', ''Estimated Cost Range:'', ''Safety Concerns:'']
        sectionNoPriority = Some '' **Cracked** tile.''"
proof -
  from field_extraction[of "''Problem Description:''" sectionNoPriority] noPriority_absent
  have a: "fieldMatch ''Priority Level:'' sectionNoPriority = None
     \<and> matchField ''Problem Description:''
          (filter (\<lambda>l. l \<noteq> ''Priority Level:'') (filter (\<lambda>l. l \<noteq> ''Problem Description:'') fieldLabels))
          sectionNoPriority = fieldMatch ''Problem Description:'' sectionNoPriority"
    by blast
  from field_extraction[of "''Problem Description:''" sectionNoPriority] noPriority_problem
  have b: "fieldLine ''Problem Description:'' sectionNoPriority
             = [FieldLine ''Problem Description:'' (trim (stripAsterisks '' **Cracked** tile.''))]"
    by blast
  from a b show ?thesis by (simp only: noPriority_stops noPriority_problem noPriority_clean simp_thms)
qed

section \<open>The report heading\<close>

lemma splitAcc_first:
  "\<exists>rest. splitAcc [c] cur s = (rev cur @ takeWhile (\<lambda>x. x \<noteq> c) s) # rest"
proof (induction s arbitrary: cur)
  case Nil
  then show ?case by simp
next
  case (Cons x xs)
  show ?case
  proof (cases "x = c")
    case True
    then show ?thesis by simp
  next
    case False
    obtain rest where "splitAcc [c] (x # cur) xs = (rev (x # cur) @ takeWhile (\<lambda>x. x \<noteq> c) xs) # rest"
      using Cons.IH by blast
    then show ?thesis using False by simp
  qed
qed

lemma first_line: "\<exists>rest. splitStr t [c] = takeWhile (\<lambda>x. x \<noteq> c) t # rest"
  using splitAcc_first[of c "[]" t] by (simp add: splitStr_def)

lemma reportTitle_Some:
  assumes "aiReport r = Some t" and "t \<noteq> []"
  shows "reportTitle r =
           (if length (trim (takeWhile (\<lambda>c. c \<noteq> CHR 0x0A) t)) > 10
            then trim (takeWhile (\<lambda>c. c \<noteq> CHR 0x0A) t)
            else if jobName r \<noteq> [] then jobName r else ''Property Inspection Report'')"
proof -
  obtain rest where "splitStr t [CHR 0x0A] = takeWhile (\<lambda>x. x \<noteq> CHR 0x0A) t # rest"
    using first_line by blast
  then have "at (splitStr t [CHR 0x0A]) 0 = Some (takeWhile (\<lambda>x. x \<noteq> CHR 0x0A) t)"
    by (simp add: at_def)
  then show ?thesis using assms by (auto simp: reportTitle_def Let_def)
qed

lemma claimedHeading_long:
  assumes "length (trim (takeWhile (\<lambda>c. c \<noteq> CHR 0x0A) t)) > 10" and "CHR ''*'' \<notin> set t"
  shows "claimedHeading (Some t) = trim (takeWhile (\<lambda>c. c \<noteq> CHR 0x0A) t)"
proof -
  let ?l = "takeWhile (\<lambda>c. c \<noteq> CHR 0x0A) t"
  have ne: "t \<noteq> []" using assms(1) by (auto simp: trim_def)
  obtain rest where sp: "splitStr t [CHR 0x0A] = ?l # rest" using first_line by blast
  have tl: "trim ?l \<noteq> []" using assms(1) by auto
  have "CHR ''*'' \<notin> set ?l" using assms(2) by (meson set_takeWhileD)
  then have sa: "stripAsterisks ?l = ?l" by (auto simp: stripAsterisks_def filter_id_conv)
  show ?thesis using ne sp tl sa by (simp add: claimedHeading_def)
qed
text \<open>
  Claim C3, as stated, fails: a first line of at most ten characters is not used as the
  heading, and without a narrative the heading is the job name, not
  \<^verbatim>\<open>Site Inspection Report\<close>.
\<close>

theorem heading_counterexample:
  "reportTitle reportShortHeading = ''Kitchen''
   \<and> claimedHeading (aiReport reportShortHeading) = ''Leaks''
   \<and> reportTitle report1 = ''Kitchen''
   \<and> claimedHeading (aiReport report1) = ''Site Inspection Report''"
  by code_simp

text \<open>
  Claim C3, amended.  Without a narrative (null or empty) the heading is the job name, or
  \<^verbatim>\<open>Property Inspection Report\<close> when the job name is empty, and the parsed section list
  is empty.  With a narrative the heading is its first line with surrounding white space
  stripped when that has more than ten characters, and the job name or that default
  otherwise.  When the stripped first line has more than ten characters and the narrative
  has no asterisk, the heading is the one the claim describes.  The heading is the title
  drawn at the top of the document.
\<close>

theorem report_heading:
  "(\<not> truthy (aiReport r) \<longrightarrow>
       reportTitle r = (if jobName r \<noteq> [] then jobName r else ''Property Inspection Report'')
       \<and> parsedSections r = [])
   \<and> (\<forall>t. aiReport r = Some t \<and> t \<noteq> [] \<longrightarrow>
         reportTitle r =
           (if length (trim (takeWhile (\<lambda>c. c \<noteq> CHR 0x0A) t)) > 10
            then trim (takeWhile (\<lambda>c. c \<noteq> CHR 0x0A) t)
            else if jobName r \<noteq> [] then jobName r else ''Property Inspection Report''))
   \<and> (\<forall>t. aiReport r = Some t \<and> length (trim (takeWhile (\<lambda>c. c \<noteq> CHR 0x0A) t)) > 10
            \<and> CHR ''*'' \<notin> set t \<longrightarrow>
         reportTitle r = claimedHeading (aiReport r))
   \<and> (\<exists>tail. docOps e r = [AddPage, addPageNumber 1, Title (reportTitle r)] @ tail)"
proof -
  have 1: "\<not> truthy (aiReport r) \<longrightarrow>
       reportTitle r = (if jobName r \<noteq> [] then jobName r else ''Property Inspection Report'')
       \<and> parsedSections r = []"
    by (simp add: reportTitle_def parsedSections_def Let_def)
  have 2: "\<forall>t. aiReport r = Some t \<and> t \<noteq> [] \<longrightarrow>
         reportTitle r =
           (if length (trim (takeWhile (\<lambda>c. c \<noteq> CHR 0x0A) t)) > 10
            then trim (takeWhile (\<lambda>c. c \<noteq> CHR 0x0A) t)
            else if jobName r \<noteq> [] then jobName r else ''Property Inspection Report'')"
    using reportTitle_Some by blast
  have 3: "\<forall>t. aiReport r = Some t \<and> length (trim (takeWhile (\<lambda>c. c \<noteq> CHR 0x0A) t)) > 10
            \<and> CHR ''*'' \<notin> set t \<longrightarrow>
         reportTitle r = claimedHeading (aiReport r)"
  proof (intro allI impI)
    fix t assume h: "aiReport r = Some t \<and> length (trim (takeWhile (\<lambda>c. c \<noteq> CHR 0x0A) t)) > 10
            \<and> CHR ''*'' \<notin> set t"
    then have ne: "t \<noteq> []" by (auto simp: trim_def)
    have "reportTitle r = trim (takeWhile (\<lambda>c. c \<noteq> CHR 0x0A) t)"
      using reportTitle_Some[of r t] h ne by simp
    moreover have "claimedHeading (Some t) = trim (takeWhile (\<lambda>c. c \<noteq> CHR 0x0A) t)"
      using claimedHeading_long h by blast
    ultimately show "reportTitle r = claimedHeading (aiReport r)" using h by simp
  qed
  from 1 2 3 docOps_title[of e r] show ?thesis by blast
qed

lemma longHeading_first_line: "trim (takeWhile (\<lambda>c. c \<noteq> CHR 0x0A) (''  Kitchen Issues '' @ [CHR 0x0A]
                                   @ ''Photo 1: Problem Description: Cracked tile.'')) = ''Kitchen Issues''"
  by code_simp

lemma longHeading_no_asterisk: "CHR ''*'' \<notin> set (''  Kitchen Issues '' @ [CHR 0x0A]
                                   @ ''Photo 1: Problem Description: Cracked tile.'')"
  by simp

theorem report_heading_witness:
  "reportTitle report1 = ''Kitchen'' \<and> parsedSections report1 = []
   \<and> reportTitle reportLongHeading = ''Kitchen Issues''
   \<and> claimedHeading (aiReport reportLongHeading) = ''Kitchen Issues''
   \<and> reportTitle reportShortHeading = ''Kitchen''"
proof -
  have a: "\<not> truthy (aiReport report1)" by (simp add: report1_def)
  have b: "aiReport reportLongHeading = Some (''  Kitchen Issues '' @ [CHR 0x0A]
                                   @ ''Photo 1: Problem Description: Cracked tile.'')"
    by (simp add: reportLongHeading_def)
  have c: "aiReport reportShortHeading = Some (''Leaks'' @ [CHR 0x0A]
                                   @ ''Photo 1: Problem Description: Cracked tile.'')"
    by (simp add: reportShortHeading_def)
  have c2: "trim (takeWhile (\<lambda>c. c \<noteq> CHR 0x0A) (''Leaks'' @ [CHR 0x0A]
                                   @ ''Photo 1: Problem Description: Cracked tile.'')) = ''Leaks''"
    by code_simp
  have j1: "jobName report1 = ''Kitchen''" by (simp add: report1_def)
  have j2: "jobName reportShortHeading = ''Kitchen''" by (simp add: reportShortHeading_def report1_def)
  from report_heading[of report1 env0] a j1
  have 1: "reportTitle report1 = ''Kitchen'' \<and> parsedSections report1 = []" by simp
  have b10: "length (trim (takeWhile (\<lambda>c. c \<noteq> CHR 0x0A) (''  Kitchen Issues '' @ [CHR 0x0A]
                                   @ ''Photo 1: Problem Description: Cracked tile.''))) > 10"
    by (simp only: longHeading_first_line) simp
  from report_heading[of reportLongHeading env0] b b10 longHeading_no_asterisk
  have h2a: "reportTitle reportLongHeading = claimedHeading (aiReport reportLongHeading)"
    by blast
  have bne: "''  Kitchen Issues '' @ [CHR 0x0A] @ ''Photo 1: Problem Description: Cracked tile.'' \<noteq> []"
    by simp
  from report_heading[of reportLongHeading env0] b bne
  have h2b: "reportTitle reportLongHeading =
           (if length (trim (takeWhile (\<lambda>c. c \<noteq> CHR 0x0A) (''  Kitchen Issues '' @ [CHR 0x0A]
                                   @ ''Photo 1: Problem Description: Cracked tile.''))) > 10
            then trim (takeWhile (\<lambda>c. c \<noteq> CHR 0x0A) (''  Kitchen Issues '' @ [CHR 0x0A]
                                   @ ''Photo 1: Problem Description: Cracked tile.''))
            else if jobName reportLongHeading \<noteq> [] then jobName reportLongHeading else ''Property Inspection Report'')"
    by blast
  have h2c: "reportTitle reportLongHeading = ''Kitchen Issues''"
    using h2b b10 by (simp only: longHeading_first_line if_True)
  have 2: "reportTitle reportLongHeading = ''Kitchen Issues''
           \<and> claimedHeading (aiReport reportLongHeading) = ''Kitchen Issues''"
    using h2a h2c by simp
  have cne: "''Leaks'' @ [CHR 0x0A] @ ''Photo 1: Problem Description: Cracked tile.'' \<noteq> []"
    by simp
  from report_heading[of reportShortHeading env0] c cne
  have h3a: "reportTitle reportShortHeading =
           (if length (trim (takeWhile (\<lambda>c. c \<noteq> CHR 0x0A) (''Leaks'' @ [CHR 0x0A]
                                   @ ''Photo 1: Problem Description: Cracked tile.''))) > 10
            then trim (takeWhile (\<lambda>c. c \<noteq> CHR 0x0A) (''Leaks'' @ [CHR 0x0A]
                                   @ ''Photo 1: Problem Description: Cracked tile.''))
            else if jobName reportShortHeading \<noteq> [] then jobName reportShortHeading else ''Property Inspection Report'')"
    by blast
  have 3: "reportTitle reportShortHeading = ''Kitchen''"
    using h3a by (simp only: c2 j2) simp
  from 1 2 3 show ?thesis by simp
qed

section \<open>The fallback for a narrative without markers\<close>

text \<open>
  Claim C4 at a report with one photo, described as \<^verbatim>\<open>cracked tile\<close>, and a narrative
  without any photo marker: no section is parsed and the document is produced, but the
  breakdown entry of the photo is its heading alone.  The fallback section built from the
  description goes through field extraction, which finds no label in it, so the
  description is drawn nowhere.
\<close>

theorem fallback_omits_description:
  "parsedSections reportNoMarkers = []
   \<and> generateFormattedPDF env0 reportNoMarkers ''report-1.pdf'' =
       (Inr [AddPage, PageNumber ''Page 1 of 3'', Title ''The kitchen needs repairs.'',
            Issue ''Issue: The kitchen needs repairs.'', SectionHeader ''Reference Photos:'',
            Rect 50 0, CellNote ''Photo not available'' 60 60, CellLabel ''Photo 1'' 50 125, SetY 150,
            AddPage, PageNumber ''Page 2 of 3'', Title ''The kitchen needs repairs.'',
            SectionHeader ''Reference Photo breakdown:'',
            PhotoHeading ''Photo 1:'', MoveDown,
            AddPage, PageNumber ''Page 3 of 3'', Title ''The kitchen needs repairs.'',
            SectionHeader ''Recommended Services:'', TextLine ''No recommended services to be added.'',
            MoveDown, SectionHeader ''Additional Notes:'',
            TextLine ''No additional project notes at this time.'', EndDoc], reportNoMarkers)"
  by code_simp

end
